theory Spec2Isabelle
  imports Complex_Main "HOL-Library.AList"
begin

section \<open>Python values\<close>

text \<open>
  The repository is a small search engine in Python: \<^verbatim>\<open>TP2/index_builder.py\<close> builds the
  indexes and \<^verbatim>\<open>TP3/browser.py\<close> answers queries from them. The embedding keeps the
  functions' names. A Python \<^verbatim>\<open>dict\<close> is an association list in insertion order, read
  with \<open>map_of\<close> and written with \<open>AList.update\<close> (which overwrites in place or appends,
  as Python does); an exception is the \<open>Inl\<close> of a sum; a Python \<^verbatim>\<open>float\<close> is a real
  number, so rounding and overflow of binary floating point are outside the model.
  A \<open>char\<close> stands for a Unicode code point below 256.
\<close>

type_synonym ('k, 'v) dict = "('k \<times> 'v) list"

datatype error =
    AttributeError
  | ZeroDivisionError
  | ValueError
  | TypeError
  | StatisticsError
  | IndexError
  | KeyError string

section \<open>Text preprocessing\<close>

text \<open>
  \<^verbatim>\<open>string.punctuation\<close> is the 32 ASCII characters
  \<^verbatim>\<open>!"#$%&'()*+,-./:;<=>?@[\]^_`{|}~\<close>: the code points 33-47, 58-64, 91-96 and 123-126.
\<close>

definition is_punctuation :: "char \<Rightarrow> bool" where
  "is_punctuation c =
     (let n = (of_char c :: nat)
      in (33 \<le> n \<and> n \<le> 47) \<or> (58 \<le> n \<and> n \<le> 64) \<or> (91 \<le> n \<and> n \<le> 96) \<or>
         (123 \<le> n \<and> n \<le> 126))"

text \<open>
  \<^verbatim>\<open>str.split()\<close> with no argument splits at the characters for which \<^verbatim>\<open>str.isspace\<close>
  holds: below 256 these are 9-13, 28-32, 133 and 160.
\<close>

definition is_space :: "char \<Rightarrow> bool" where
  "is_space c =
     (let n = (of_char c :: nat)
      in (9 \<le> n \<and> n \<le> 13) \<or> (28 \<le> n \<and> n \<le> 32) \<or> n = 133 \<or> n = 160)"

text \<open>
  \<^verbatim>\<open>str.lower()\<close>: below 256 the upper-case letters are A-Z (65-90) and the Latin-1 letters
  192-214 and 216-222; each has its lower-case form 32 code points above.
\<close>

definition is_upper :: "char \<Rightarrow> bool" where
  "is_upper c =
     (let n = (of_char c :: nat)
      in (65 \<le> n \<and> n \<le> 90) \<or> (192 \<le> n \<and> n \<le> 214) \<or> (216 \<le> n \<and> n \<le> 222))"

definition lower_char :: "char \<Rightarrow> char" where
  "lower_char c = (if is_upper c then char_of (of_char c + (32::nat)) else c)"

definition lower :: "string \<Rightarrow> string" where
  "lower text = map lower_char text"

text \<open>\<^verbatim>\<open>text.translate(str.maketrans("", "", string.punctuation))\<close> deletes the punctuation.\<close>

definition remove_punctuation :: "string \<Rightarrow> string" where
  "remove_punctuation text = filter (\<lambda>c. \<not> is_punctuation c) text"

text \<open>
  \<^verbatim>\<open>text.split()\<close>: the maximal runs of non-space characters, in order. \<open>split_from cur cs\<close>
  scans \<open>cs\<close> with the run read so far in \<open>cur\<close>.
\<close>

fun split_from :: "string \<Rightarrow> string \<Rightarrow> string list" where
  "split_from cur [] = (if cur = [] then [] else [cur])"
| "split_from cur (c # cs) =
     (if is_space c then (if cur = [] then split_from [] cs else cur # split_from [] cs)
      else split_from (cur @ [c]) cs)"

definition split :: "string \<Rightarrow> string list" where
  "split text = split_from [] text"

text \<open>
  The split in the words of the design, to compare \<open>split\<close> with: skip the whitespace,
  take the longest run of characters that are not whitespace as a token, and go on behind
  it.
\<close>

function spec_whitespace_runs :: "string \<Rightarrow> string list" where
  "spec_whitespace_runs s =
     (case dropWhile is_space s of
        [] \<Rightarrow> []
      | c # cs \<Rightarrow>
          takeWhile (\<lambda>x. \<not> is_space x) (c # cs) #
          spec_whitespace_runs (dropWhile (\<lambda>x. \<not> is_space x) (c # cs)))"
  by pat_completeness auto
termination
proof (relation "measure length")
  show "wf (measure length)" by simp
next
  fix s :: string and c cs
  assume d: "dropWhile is_space s = c # cs"
  have "length (dropWhile (\<lambda>x. \<not> is_space x) (c # cs)) \<le> length (c # cs)"
    by (rule length_dropWhile_le)
  moreover from d have "\<not> is_space c"
    using hd_dropWhile [of is_space s] by simp
  then have "dropWhile (\<lambda>x. \<not> is_space x) (c # cs) = dropWhile (\<lambda>x. \<not> is_space x) cs"
    by simp
  moreover have "length (dropWhile (\<lambda>x. \<not> is_space x) cs) \<le> length cs"
    by (rule length_dropWhile_le)
  moreover have "length (c # cs) \<le> length s"
    using length_dropWhile_le [of is_space s] d by simp
  ultimately show "(dropWhile (\<lambda>x. \<not> is_space x) (c # cs), s) \<in> measure length"
    by simp
qed

declare spec_whitespace_runs.simps [simp del]

text \<open>
  \<^verbatim>\<open>browser.py\<close>, lines 86-104:
  \<^verbatim>\<open>
  def tokenize(text):
      text = text.lower()
      text = text.translate(str.maketrans("", "", string.punctuation))
      tokens = text.split()
      return tokens
  \<close>
\<close>

definition tokenize :: "string \<Rightarrow> string list" where
  "tokenize text = split (remove_punctuation (lower text))"

text \<open>
  \<^verbatim>\<open>browser.py\<close>, lines 107-117. The stopword list there is NLTK's English list, data
  that is not part of the repository: it is a parameter.
  \<^verbatim>\<open>
  def normalize(tokens):
      return [t for t in tokens if t not in STOPWORDS]
  \<close>
\<close>

definition normalize :: "string list \<Rightarrow> string list \<Rightarrow> string list" where
  "normalize stopwords tokens = filter (\<lambda>t. t \<notin> set stopwords) tokens"

text \<open>\<^verbatim>\<open>index_builder.py\<close>, lines 56-62: the index builder's own stopword set.\<close>

definition STOPWORDS :: "string list" where
  "STOPWORDS =
     [''a'', ''an'', ''the'', ''and'', ''or'', ''but'', ''if'', ''while'', ''with'', ''of'', ''at'',
      ''by'', ''for'', ''in'', ''on'', ''to'', ''from'', ''as'', ''is'', ''are'', ''was'', ''were'',
      ''be'', ''been'', ''has'', ''have'', ''it'', ''this'', ''that'', ''these'', ''those'', ''so'',
      ''not'', ''your'', ''my'', ''their'', ''our'', ''can'', ''will'', ''just'', ''i'', ''you'',
      ''he'', ''she'', ''they'', ''we'', ''me'', ''him'', ''her'', ''them'', ''do'', ''does'',
      ''did'']"

text \<open>
  \<^verbatim>\<open>index_builder.py\<close>, lines 65-83: the index builder's tokenizer, a function of the
  same name in another module.
  \<^verbatim>\<open>
  def tokenize(text):
      text = text.lower()
      text = text.translate(str.maketrans("", "", string.punctuation))
      tokens = text.split()
      return [t for t in tokens if t not in STOPWORDS]
  \<close>
\<close>

definition index_builder_tokenize :: "string \<Rightarrow> string list" where
  "index_builder_tokenize text =
     filter (\<lambda>t. t \<notin> set STOPWORDS) (split (remove_punctuation (lower text)))"

section \<open>The index builder\<close>

text \<open>
  A product document is a JSON object. The model keeps the keys the code reads: \<^verbatim>\<open>url\<close>
  (absent is Python's \<^verbatim>\<open>None\<close>), the text fields by name (\<^verbatim>\<open>title\<close>,
  \<^verbatim>\<open>description\<close>), the review list under \<^verbatim>\<open>product_reviews\<close>, read by the index
  builder, and the one under \<^verbatim>\<open>reviews\<close>, read by the browser. Of a review only the
  key \<^verbatim>\<open>rating\<close> is read; it may be absent.
\<close>

record review =
  rating :: "real option"

record document =
  url :: "string option"
  text_fields :: "(string, string) dict"
  product_reviews :: "review list option"
  reviews :: "review list option"

text \<open>A positional index: token, then document URL, then the positions of the token.\<close>

type_synonym 'u text_index = "(string, ('u, nat list) dict) dict"

text \<open>\<^verbatim>\<open>positions_map[t].append(idx)\<close> on a \<^verbatim>\<open>defaultdict(list)\<close>.\<close>

definition append_position ::
  "nat \<Rightarrow> string \<Rightarrow> (string, nat list) dict \<Rightarrow> (string, nat list) dict" where
  "append_position idx t positions_map =
     AList.update t ((case map_of positions_map t of None \<Rightarrow> [] | Some ps \<Rightarrow> ps) @ [idx])
       positions_map"

text \<open>
  \<^verbatim>\<open>
  positions_map = defaultdict(list)
  for idx, t in enumerate(split_tokens):
      positions_map[t].append(idx)
  \<close>
\<close>

definition positions_of :: "string list \<Rightarrow> (string, nat list) dict" where
  "positions_of split_tokens =
     fold (\<lambda>(idx, t) positions_map. append_position idx t positions_map)
       (enumerate 0 split_tokens) []"

text \<open>\<^verbatim>\<open>index[token][url] = ps\<close> on a \<^verbatim>\<open>defaultdict(dict)\<close>.\<close>

definition set_posting :: "string \<Rightarrow> 'u \<Rightarrow> nat list \<Rightarrow> 'u text_index \<Rightarrow> 'u text_index" where
  "set_posting token u ps index =
     AList.update token
       (AList.update u ps (case map_of index token of None \<Rightarrow> [] | Some m \<Rightarrow> m)) index"

text \<open>\<^verbatim>\<open>doc.get(field, "")\<close>\<close>

definition field_text :: "string \<Rightarrow> document \<Rightarrow> string" where
  "field_text field doc = (case map_of (text_fields doc) field of None \<Rightarrow> [] | Some s \<Rightarrow> s)"

text \<open>
  \<^verbatim>\<open>index_builder.py\<close>, lines 98-134. \<open>index_document\<close> is the body of the loop over the
  documents. The loop over \<^verbatim>\<open>set(tokenize(text))\<close> runs in an order Python does not fix;
  it only decides the order in which keys enter the dictionary, which no lookup sees: the
  model takes the tokens in order of first occurrence. Writing the index to disk
  (\<^verbatim>\<open>save_results\<close>) is left out.
  \<^verbatim>\<open>
  def build_inverted_index(documents, field):
      index = defaultdict(dict)
      for doc in documents:
          url = doc.get("url")
          text = doc.get(field, "")
          tokens = set(tokenize(text))
          positions_map = defaultdict(list)
          split_tokens = tokenize(text)
          for idx, t in enumerate(split_tokens):
              positions_map[t].append(idx)
          for token in tokens:
              index[token][url] = positions_map[token]
      save_results(index, "output/" + field + "_index.json")
      return index
  \<close>
\<close>

definition index_document ::
  "string \<Rightarrow> document \<Rightarrow> string option text_index \<Rightarrow> string option text_index" where
  "index_document field doc index =
     (let u = url doc;
          text = field_text field doc;
          tokens = remdups (index_builder_tokenize text);
          positions_map = positions_of (index_builder_tokenize text)
      in fold (\<lambda>token idx.
                 set_posting token u
                   (case map_of positions_map token of None \<Rightarrow> [] | Some ps \<Rightarrow> ps) idx)
           tokens index)"

definition build_inverted_index :: "document list \<Rightarrow> string \<Rightarrow> string option text_index" where
  "build_inverted_index documents field = fold (index_document field) documents []"

text \<open>Reading \<^verbatim>\<open>index[token][url]\<close>, \<open>None\<close> where a key is missing.\<close>

definition lookup_positions :: "'u text_index \<Rightarrow> string \<Rightarrow> 'u \<Rightarrow> nat list option" where
  "lookup_positions index token u =
     (case map_of index token of None \<Rightarrow> None | Some postings \<Rightarrow> map_of postings u)"

text \<open>The positions of \<open>t\<close> in a list whose first element has position \<open>n\<close>.\<close>

fun positions_from :: "nat \<Rightarrow> 'a \<Rightarrow> 'a list \<Rightarrow> nat list" where
  "positions_from n t [] = []"
| "positions_from n t (x # xs) =
     (if x = t then n # positions_from (Suc n) t xs else positions_from (Suc n) t xs)"

text \<open>An entry of the reviews index.\<close>

record reviews_entry =
  total_reviews :: nat
  mean_mark :: real
  last_rating :: real

text \<open>\<^verbatim>\<open>statistics.mean\<close> raises \<^verbatim>\<open>StatisticsError\<close> on an empty list.\<close>

definition mean :: "real list \<Rightarrow> error + real" where
  "mean xs = (if xs = [] then Inl StatisticsError else Inr (sum_list xs / real (length xs)))"

text \<open>\<^verbatim>\<open>ratings[-1]\<close> raises \<^verbatim>\<open>IndexError\<close> on an empty list.\<close>

definition last_item :: "'a list \<Rightarrow> error + 'a" where
  "last_item xs = (if xs = [] then Inl IndexError else Inr (last xs))"

text \<open>
  \<^verbatim>\<open>index_builder.py\<close>, lines 137-179. \<open>index_reviews\<close> is the body of the loop; the keys
  of the dictionary literal are evaluated in order, so \<^verbatim>\<open>mean\<close> runs before
  \<^verbatim>\<open>ratings[-1]\<close>.
  \<^verbatim>\<open>
  def build_reviews_index(documents):
      reviews_index = {}
      for doc in documents:
          url = doc.get("url")
          reviews = doc.get("product_reviews", [])
          if not reviews:
              reviews_index[url] = {"total_reviews": 0, "mean_mark": 0, "last_rating": 0}
              continue
          ratings = [r["rating"] for r in reviews if "rating" in r]
          reviews_index[url] = {
              "total_reviews": len(ratings),
              "mean_mark": mean(ratings),
              "last_rating": ratings[-1]
          }
      save_results(reviews_index, "output/reviews_index.json")
      return reviews_index
  \<close>
\<close>

definition index_reviews ::
  "document \<Rightarrow> (string option, reviews_entry) dict \<Rightarrow> error + (string option, reviews_entry) dict"
  where
  "index_reviews doc reviews_index =
     (let u = url doc;
          revs = (case product_reviews doc of None \<Rightarrow> [] | Some rs \<Rightarrow> rs)
      in if revs = []
         then Inr (AList.update u \<lparr>total_reviews = 0, mean_mark = 0, last_rating = 0\<rparr> reviews_index)
         else
           (let ratings = List.map_filter rating revs
            in case mean ratings of
                 Inl e \<Rightarrow> Inl e
               | Inr m \<Rightarrow>
                   (case last_item ratings of
                      Inl e \<Rightarrow> Inl e
                    | Inr l \<Rightarrow>
                        Inr (AList.update u
                               \<lparr>total_reviews = length ratings, mean_mark = m, last_rating = l\<rparr>
                               reviews_index))))"

fun build_reviews_loop ::
  "document list \<Rightarrow> (string option, reviews_entry) dict \<Rightarrow>
   error + (string option, reviews_entry) dict" where
  "build_reviews_loop [] reviews_index = Inr reviews_index"
| "build_reviews_loop (doc # documents) reviews_index =
     (case index_reviews doc reviews_index of
        Inl e \<Rightarrow> Inl e
      | Inr reviews_index' \<Rightarrow> build_reviews_loop documents reviews_index')"

definition build_reviews_index ::
  "document list \<Rightarrow> error + (string option, reviews_entry) dict" where
  "build_reviews_index documents = build_reviews_loop documents []"

section \<open>The browser: indexes\<close>

text \<open>
  \<^verbatim>\<open>browser.py\<close> loads its indexes from the JSON files the index builder wrote
  (lines 66-71). In the title and description index a token maps to an object from URL to
  positions; in a feature index (brand, origin: \<^verbatim>\<open>build_feature_indexes\<close>) a token maps
  to an array of URLs; the reviews index maps a URL to an object with the three keys of
  \<open>reviews_entry\<close>. The filters take any of the first two: what is stored under a token
  is a \<open>posting\<close>.
\<close>

datatype posting = UrlPositions "(string, nat list) dict" | UrlList "string list"

type_synonym index = "(string, posting) dict"

type_synonym feature_index = "(string, string list) dict"

definition text_postings :: "string text_index \<Rightarrow> index" where
  "text_postings idx = map (\<lambda>(t, postings). (t, UrlPositions postings)) idx"

definition feature_postings :: "feature_index \<Rightarrow> index" where
  "feature_postings idx = map (\<lambda>(t, urls). (t, UrlList urls)) idx"

text \<open>
  The module-level state of \<^verbatim>\<open>browser.py\<close>: the five indexes, NLTK's stopword list
  (line 83) and the synonym table (line 125). All of it is data read from files that are
  not part of the source, so it is a parameter of the model.
\<close>

record engine =
  title_index :: "string text_index"
  description_index :: "string text_index"
  brand_index :: feature_index
  origin_index :: feature_index
  reviews_index :: "(string, reviews_entry) dict"
  stopwords :: "string list"
  synonyms :: "(string, string list) dict"

section \<open>The browser: query processing\<close>

text \<open>
  \<^verbatim>\<open>browser.py\<close>, lines 128-161. \<^verbatim>\<open>list(expanded)\<close> lists a set in an order Python
  does not fix: \<open>enum\<close> is that order, a parameter.
  \<^verbatim>\<open>
  def expand_with_synonyms(tokens):
      expanded = set(tokens)
      for t in tokens:
          if t in synonyms:
              expanded.update(synonyms[t])
      return list(expanded)

  def process_query(query):
      tokens = tokenize(query)
      tokens = normalize(tokens)
      tokens = expand_with_synonyms(tokens)
      return tokens
  \<close>
\<close>

definition expand_with_synonyms ::
  "(string set \<Rightarrow> string list) \<Rightarrow> (string, string list) dict \<Rightarrow> string list \<Rightarrow> string list" where
  "expand_with_synonyms enum syns tokens =
     enum (fold (\<lambda>t expanded. case map_of syns t of None \<Rightarrow> expanded | Some ss \<Rightarrow> expanded \<union> set ss)
             tokens (set tokens))"

definition process_query :: "engine \<Rightarrow> (string set \<Rightarrow> string list) \<Rightarrow> string \<Rightarrow> string list" where
  "process_query eng enum q =
     expand_with_synonyms enum (synonyms eng) (normalize (stopwords eng) (tokenize q))"

section \<open>The browser: document filtering\<close>

text \<open>\<^verbatim>\<open>index[t].keys()\<close>: a dictionary has the method, a list has not.\<close>

fun keys :: "posting \<Rightarrow> error + string list" where
  "keys (UrlPositions postings) = Inr (map fst postings)"
| "keys (UrlList urls) = Inl AttributeError"

text \<open>
  \<^verbatim>\<open>browser.py\<close>, lines 168-183:
  \<^verbatim>\<open>
  def filter_any_token(tokens, index):
      docs = set()
      for t in tokens:
          if t in index:
              docs.update(index[t].keys())
      return docs
  \<close>
\<close>

fun filter_any_loop :: "string list \<Rightarrow> index \<Rightarrow> string set \<Rightarrow> error + string set" where
  "filter_any_loop [] index docs = Inr docs"
| "filter_any_loop (t # tokens) index docs =
     (case map_of index t of
        None \<Rightarrow> filter_any_loop tokens index docs
      | Some p \<Rightarrow>
          (case keys p of
             Inl e \<Rightarrow> Inl e
           | Inr ks \<Rightarrow> filter_any_loop tokens index (docs \<union> set ks)))"

definition filter_any_token :: "string list \<Rightarrow> index \<Rightarrow> error + string set" where
  "filter_any_token tokens index = filter_any_loop tokens index {}"

text \<open>
  \<^verbatim>\<open>browser.py\<close>, lines 186-204:
  \<^verbatim>\<open>
  def filter_all_tokens(tokens, index):
      doc_sets = []
      for t in tokens:
          if t in index:
              doc_sets.append(set(index[t].keys()))
      if not doc_sets:
          return set()
      return set.intersection(*doc_sets)
  \<close>
\<close>

fun filter_all_loop ::
  "string list \<Rightarrow> index \<Rightarrow> string set list \<Rightarrow> error + string set list" where
  "filter_all_loop [] index doc_sets = Inr doc_sets"
| "filter_all_loop (t # tokens) index doc_sets =
     (case map_of index t of
        None \<Rightarrow> filter_all_loop tokens index doc_sets
      | Some p \<Rightarrow>
          (case keys p of
             Inl e \<Rightarrow> Inl e
           | Inr ks \<Rightarrow> filter_all_loop tokens index (doc_sets @ [set ks])))"

definition filter_all_tokens :: "string list \<Rightarrow> index \<Rightarrow> error + string set" where
  "filter_all_tokens tokens index =
     (case filter_all_loop tokens index [] of
        Inl e \<Rightarrow> Inl e
      | Inr [] \<Rightarrow> Inr {}
      | Inr (s # doc_sets) \<Rightarrow> Inr (fold (\<lambda>a b. b \<inter> a) doc_sets s))"

text \<open>
  \<^verbatim>\<open>browser.py\<close>, lines 207-225:
  \<^verbatim>\<open>
  def filter_documents(tokens):
      candidates = set()
      for idx in [title_index, description_index, brand_index, origin_index]:
          candidates |= filter_any_token(tokens, idx)
      strict = filter_all_tokens(tokens, title_index)
      return candidates | strict
  \<close>
\<close>

fun filter_any_indexes :: "string list \<Rightarrow> index list \<Rightarrow> string set \<Rightarrow> error + string set" where
  "filter_any_indexes tokens [] candidates = Inr candidates"
| "filter_any_indexes tokens (idx # idxs) candidates =
     (case filter_any_token tokens idx of
        Inl e \<Rightarrow> Inl e
      | Inr docs \<Rightarrow> filter_any_indexes tokens idxs (candidates \<union> docs))"

definition filter_documents :: "engine \<Rightarrow> string list \<Rightarrow> error + string set" where
  "filter_documents eng tokens =
     (case filter_any_indexes tokens
             [text_postings (title_index eng), text_postings (description_index eng),
              feature_postings (brand_index eng), feature_postings (origin_index eng)] {} of
        Inl e \<Rightarrow> Inl e
      | Inr candidates \<Rightarrow>
          (case filter_all_tokens tokens (text_postings (title_index eng)) of
             Inl e \<Rightarrow> Inl e
           | Inr strict \<Rightarrow> Inr (candidates \<union> strict)))"

text \<open>
  What the filters are to compute, in the words of the design: the URLs that have a
  posting for at least one query token, and the URLs that have a posting for every query
  token present in the index (none when no query token is present).
\<close>

definition any_token_urls :: "string text_index \<Rightarrow> string list \<Rightarrow> string set" where
  "any_token_urls idx tokens = {u. \<exists>t \<in> set tokens. lookup_positions idx t u \<noteq> None}"

definition all_token_urls :: "string text_index \<Rightarrow> string list \<Rightarrow> string set" where
  "all_token_urls idx tokens =
     (if set tokens \<inter> fst ` set idx = {} then {}
      else {u. \<forall>t \<in> set tokens \<inter> fst ` set idx. lookup_positions idx t u \<noteq> None})"

section \<open>The browser: BM25\<close>

text \<open>
  \<^verbatim>\<open>browser.py\<close>, lines 232-237, with the defaults \<^verbatim>\<open>k1=1.5, b=0.75\<close> as arguments.
  A division by zero raises \<^verbatim>\<open>ZeroDivisionError\<close>, \<^verbatim>\<open>math.log\<close> of a number that is
  not positive raises \<^verbatim>\<open>ValueError\<close>.
  \<^verbatim>\<open>
  def bm25_score(tf, df, doc_len, avgdl, N, k1=1.5, b=0.75):
      idf = math.log(1 + (N - df + 0.5) / (df + 0.5))
      return idf * ((tf * (k1 + 1)) / (tf + k1 * (1 - b + b * doc_len / avgdl)))
  \<close>
\<close>

definition bm25_score :: "real \<Rightarrow> real \<Rightarrow> real \<Rightarrow> real \<Rightarrow> real \<Rightarrow> real \<Rightarrow> real \<Rightarrow> error + real" where
  "bm25_score tf df doc_len avgdl N k1 b =
     (if df + 0.5 = 0 then Inl ZeroDivisionError
      else if 1 + (N - df + 0.5) / (df + 0.5) \<le> 0 then Inl ValueError
      else if avgdl = 0 then Inl ZeroDivisionError
      else if tf + k1 * (1 - b + b * doc_len / avgdl) = 0 then Inl ZeroDivisionError
      else Inr (ln (1 + (N - df + 0.5) / (df + 0.5)) *
                ((tf * (k1 + 1)) / (tf + k1 * (1 - b + b * doc_len / avgdl)))))"

text \<open>
  \<^verbatim>\<open>browser.py\<close>, lines 240-267. \<open>score_postings\<close> is the inner loop over
  \<^verbatim>\<open>postings.items()\<close>, \<open>bm25_loop\<close> the loop over the tokens; \<^verbatim>\<open>scores\<close> is a
  \<^verbatim>\<open>defaultdict(float)\<close>.
  \<^verbatim>\<open>
  def bm25(tokens, index, doc_lengths):
      N = len(doc_lengths)
      avgdl = sum(doc_lengths.values()) / N
      scores = defaultdict(float)
      for t in tokens:
          if t not in index:
              continue
          postings = index[t]
          df = len(postings)
          for url, positions in postings.items():
              tf = len(positions)
              doc_len = doc_lengths.get(url, 1)
              scores[url] += bm25_score(tf, df, doc_len, avgdl, N)
      return scores
  \<close>
\<close>

fun score_postings ::
  "(string, nat list) dict \<Rightarrow> real \<Rightarrow> (string, int) dict \<Rightarrow> real \<Rightarrow> real \<Rightarrow>
   (string, real) dict \<Rightarrow> error + (string, real) dict" where
  "score_postings [] df doc_lengths avgdl N scores = Inr scores"
| "score_postings ((u, positions) # postings) df doc_lengths avgdl N scores =
     (let tf = real (length positions);
          doc_len = (case map_of doc_lengths u of None \<Rightarrow> 1 | Some l \<Rightarrow> real_of_int l)
      in case bm25_score tf df doc_len avgdl N 1.5 0.75 of
           Inl e \<Rightarrow> Inl e
         | Inr s \<Rightarrow>
             score_postings postings df doc_lengths avgdl N
               (AList.update u ((case map_of scores u of None \<Rightarrow> 0 | Some x \<Rightarrow> x) + s) scores))"

fun bm25_loop ::
  "string list \<Rightarrow> string text_index \<Rightarrow> (string, int) dict \<Rightarrow> real \<Rightarrow> real \<Rightarrow>
   (string, real) dict \<Rightarrow> error + (string, real) dict" where
  "bm25_loop [] index doc_lengths avgdl N scores = Inr scores"
| "bm25_loop (t # tokens) index doc_lengths avgdl N scores =
     (case map_of index t of
        None \<Rightarrow> bm25_loop tokens index doc_lengths avgdl N scores
      | Some postings \<Rightarrow>
          (case score_postings postings (real (length postings)) doc_lengths avgdl N scores of
             Inl e \<Rightarrow> Inl e
           | Inr scores' \<Rightarrow> bm25_loop tokens index doc_lengths avgdl N scores'))"

definition bm25 ::
  "string list \<Rightarrow> string text_index \<Rightarrow> (string, int) dict \<Rightarrow> error + (string, real) dict" where
  "bm25 tokens index doc_lengths =
     (let N = length doc_lengths
      in if N = 0 then Inl ZeroDivisionError
         else bm25_loop tokens index doc_lengths
                (real_of_int (sum_list (map snd doc_lengths)) / real N) (real N) [])"

section \<open>The browser: ranking\<close>

text \<open>
  \<^verbatim>\<open>browser.py\<close>, lines 274-281:
  \<^verbatim>\<open>
  def exact_match_score(tokens, title_tokens):
      return int(set(tokens).issubset(set(title_tokens)))
  \<close>
\<close>

definition exact_match_score :: "string list \<Rightarrow> string list \<Rightarrow> nat" where
  "exact_match_score tokens ttokens = (if set tokens \<subseteq> set ttokens then 1 else 0)"

text \<open>The metadata of a document (\<^verbatim>\<open>browser.py\<close>, lines 308-314).\<close>

record stats =
  title :: string
  description :: string
  title_tokens :: "string list"
  review_count :: nat
  doc_length :: nat

text \<open>
  \<^verbatim>\<open>browser.py\<close>, lines 288-316. \<^verbatim>\<open>p["url"]\<close> and \<^verbatim>\<open>p["title"]\<close> raise
  \<^verbatim>\<open>KeyError\<close> on a product without the key; the review list is read under the key
  \<^verbatim>\<open>reviews\<close>.
  \<^verbatim>\<open>
  def build_documents_metadata(products):
      metadata = {}
      for p in products:
          url = p["url"]
          title = p["title"]
          description = p.get("description", "")
          reviews = p.get("reviews", [])
          title_tokens = normalize(tokenize(title))
          metadata[url] = {
              "title": title,
              "description": description,
              "title_tokens": title_tokens,
              "review_count": len(reviews),
              "doc_length": len(normalize(tokenize(description)))
          }
      return metadata
  \<close>
\<close>

fun build_metadata_loop ::
  "string list \<Rightarrow> document list \<Rightarrow> (string, stats) dict \<Rightarrow> error + (string, stats) dict" where
  "build_metadata_loop sw [] metadata = Inr metadata"
| "build_metadata_loop sw (p # products) metadata =
     (case url p of
        None \<Rightarrow> Inl (KeyError ''url'')
      | Some u \<Rightarrow>
          (case map_of (text_fields p) ''title'' of
             None \<Rightarrow> Inl (KeyError ''title'')
           | Some ttl \<Rightarrow>
               (let descr = field_text ''description'' p;
                    revs = (case reviews p of None \<Rightarrow> [] | Some rs \<Rightarrow> rs)
                in build_metadata_loop sw products
                     (AList.update u
                        \<lparr>title = ttl, description = descr,
                           title_tokens = normalize sw (tokenize ttl),
                           review_count = length revs,
                           doc_length = length (normalize sw (tokenize descr))\<rparr>
                        metadata))))"

definition build_documents_metadata :: "engine \<Rightarrow> document list \<Rightarrow> error + (string, stats) dict" where
  "build_documents_metadata eng products = build_metadata_loop (stopwords eng) products []"

text \<open>
  \<^verbatim>\<open>len(index[t][doc])\<close> under the guard \<^verbatim>\<open>t in index and doc in index[t]\<close>, and
  \<open>0\<close> where the guard fails.
\<close>

definition posting_length :: "string text_index \<Rightarrow> string \<Rightarrow> string \<Rightarrow> nat" where
  "posting_length idx t doc = (case lookup_positions idx t doc of None \<Rightarrow> 0 | Some ps \<Rightarrow> length ps)"

text \<open>The keys of an entry of the reviews index, as the index builder writes it.\<close>

definition reviews_entry_keys :: "string list" where
  "reviews_entry_keys = [''total_reviews'', ''mean_mark'', ''last_rating'']"

text \<open>
  \<^verbatim>\<open>browser.py\<close>, lines 326-348. \<open>score_tokens\<close> is the loop. \<^verbatim>\<open>reviews_index\<close> is the
  index of review statistics by URL: \<^verbatim>\<open>t in reviews_index\<close> asks whether the token is one
  of its URLs, \<^verbatim>\<open>doc in reviews_index[t]\<close> whether the document's URL is one of the three
  keys of the entry, and \<^verbatim>\<open>reviews_index[t][doc]\<close> is then a number, of which \<^verbatim>\<open>len\<close>
  raises \<^verbatim>\<open>TypeError\<close>.
  \<^verbatim>\<open>
  def compute_score(doc, tokens, stats):
      score = 0.0
      for t in tokens:
          if t in title_index and doc in title_index[t]:
              score += 3 * len(title_index[t][doc])
          if t in description_index and doc in description_index[t]:
              score += 1 * len(description_index[t][doc])
          if t in reviews_index and doc in reviews_index[t]:
              score += 0.5 * len(reviews_index[t][doc])
      score += 5 * exact_match_score(tokens, stats["title_tokens"])
      score += 0.1 * stats["review_count"]
      return score
  \<close>
\<close>

fun score_tokens :: "engine \<Rightarrow> string \<Rightarrow> string list \<Rightarrow> real \<Rightarrow> error + real" where
  "score_tokens eng doc [] score = Inr score"
| "score_tokens eng doc (t # tokens) score =
     (let score1 = score + 3 * real (posting_length (title_index eng) t doc);
          score2 = score1 + 1 * real (posting_length (description_index eng) t doc)
      in if map_of (reviews_index eng) t \<noteq> None \<and> doc \<in> set reviews_entry_keys
         then Inl TypeError
         else score_tokens eng doc tokens score2)"

definition compute_score :: "engine \<Rightarrow> string \<Rightarrow> string list \<Rightarrow> stats \<Rightarrow> error + real" where
  "compute_score eng doc tokens st =
     (case score_tokens eng doc tokens 0 of
        Inl e \<Rightarrow> Inl e
      | Inr score \<Rightarrow>
          Inr (score + 5 * real (exact_match_score tokens (title_tokens st))
                 + 0.1 * real (review_count st)))"

section \<open>The browser: search\<close>

text \<open>
  \<^verbatim>\<open>round(score, 3)\<close> on exact numbers: to the nearest multiple of \<open>1/1000\<close>, a tie to
  the even one.
\<close>

definition round_half_even :: "real \<Rightarrow> int" where
  "round_half_even x =
     (let f = \<lfloor>x\<rfloor>
      in if x - of_int f < 1 / 2 then f
         else if 1 / 2 < x - of_int f then f + 1
         else if even f then f else f + 1)"

definition round3 :: "real \<Rightarrow> real" where
  "round3 x = of_int (round_half_even (x * 1000)) / 1000"

record result =
  result_title :: string
  result_url :: string
  result_description :: string
  result_score :: real

record search_results =
  query :: string
  total_documents :: nat
  filtered_documents :: nat
  results :: "result list"

text \<open>
  \<^verbatim>\<open>browser.py\<close>, lines 355-389. \<open>search_loop\<close> is the loop over \<^verbatim>\<open>filtered_docs\<close>, a
  set, which Python iterates in an order it does not fix: the order \<open>enum\<close>. The sort is
  stable and descending by score. The model returns the dictionary that \<^verbatim>\<open>search\<close>
  hands to \<^verbatim>\<open>save_results\<close>; writing the file is left out.
  \<^verbatim>\<open>
  def search(query, documents_metadata):
      tokens = process_query(query)
      filtered_docs = filter_documents(tokens)
      results = []
      for doc in filtered_docs:
          stats = documents_metadata[doc]
          score = compute_score(doc, tokens, stats)
          results.append({"title": stats["title"], "url": doc,
                          "description": stats["description"], "score": round(score, 3)})
      results.sort(key=lambda x: x["score"], reverse=True)
      results = {"query": query, "total_documents": len(documents_metadata),
                 "filtered_documents": len(filtered_docs), "results": results}
      save_results(results, "output/results.jsonl")
  \<close>
\<close>

fun search_loop ::
  "engine \<Rightarrow> string list \<Rightarrow> (string, stats) dict \<Rightarrow> string list \<Rightarrow> result list \<Rightarrow>
   error + result list" where
  "search_loop eng tokens documents_metadata [] rs = Inr rs"
| "search_loop eng tokens documents_metadata (doc # docs) rs =
     (case map_of documents_metadata doc of
        None \<Rightarrow> Inl (KeyError doc)
      | Some st \<Rightarrow>
          (case compute_score eng doc tokens st of
             Inl e \<Rightarrow> Inl e
           | Inr score \<Rightarrow>
               search_loop eng tokens documents_metadata docs
                 (rs @ [\<lparr>result_title = title st, result_url = doc,
                          result_description = description st,
                          result_score = round3 score\<rparr>])))"

definition search ::
  "engine \<Rightarrow> (string set \<Rightarrow> string list) \<Rightarrow> string \<Rightarrow> (string, stats) dict \<Rightarrow>
   error + search_results" where
  "search eng enum q documents_metadata =
     (let tokens = process_query eng enum q
      in case filter_documents eng tokens of
           Inl e \<Rightarrow> Inl e
         | Inr filtered_docs \<Rightarrow>
             (case search_loop eng tokens documents_metadata (enum filtered_docs) [] of
                Inl e \<Rightarrow> Inl e
              | Inr rs \<Rightarrow>
                  Inr \<lparr>query = q, total_documents = length documents_metadata,
                       filtered_documents = card filtered_docs,
                       results = sort_key (\<lambda>r. - result_score r) rs\<rparr>))"

section \<open>The tokenizers\<close>

lemma lower_char_not_upper: "\<not> is_upper (lower_char c)"
  by (auto simp add: lower_char_def is_upper_def Let_def)

lemma concat_split_from:
  "concat (split_from cur cs) = cur @ filter (\<lambda>c. \<not> is_space c) cs"
  by (induction cur cs rule: split_from.induct) simp_all

lemma split_from_tokens:
  assumes "tok \<in> set (split_from cur cs)"
  shows "tok \<noteq> [] \<and> set tok \<subseteq> set cur \<union> {c \<in> set cs. \<not> is_space c}"
  using assms
proof (induction cur cs rule: split_from.induct)
  case (1 cur)
  then show ?case by (simp split: if_splits)
next
  case (2 cur c cs)
  then show ?case by (fastforce split: if_splits)
qed

lemma split_tokens:
  assumes "tok \<in> set (split text)"
  shows "tok \<noteq> [] \<and> set tok \<subseteq> {c \<in> set text. \<not> is_space c}"
  using split_from_tokens [of tok "[]" "text"] assms by (simp add: split_def)

lemma split_from_run:
  "split_from cur cs =
     (if cur @ takeWhile (\<lambda>x. \<not> is_space x) cs = [] then []
      else [cur @ takeWhile (\<lambda>x. \<not> is_space x) cs]) @
     split_from [] (dropWhile (\<lambda>x. \<not> is_space x) cs)"
proof (induction cs arbitrary: cur)
  case Nil
  then show ?case by simp
next
  case (Cons c cs)
  show ?case
  proof (cases "is_space c")
    case True
    then show ?thesis by simp
  next
    case False
    then show ?thesis
      using Cons [of "cur @ [c]"] by simp
  qed
qed

lemma split_from_skip: "split_from [] s = split_from [] (dropWhile is_space s)"
  by (induction s) simp_all

lemma split_spec_whitespace_runs: "split s = spec_whitespace_runs s"
proof -
  have "split_from [] s = spec_whitespace_runs s"
  proof (induction s rule: spec_whitespace_runs.induct)
    case (1 s)
    show ?case
    proof (cases "dropWhile is_space s")
      case Nil
      have "split_from [] s = split_from [] (dropWhile is_space s)"
        by (rule split_from_skip)
      also have "\<dots> = []"
        unfolding Nil by simp
      finally have "split_from [] s = []" .
      moreover have "spec_whitespace_runs s = []"
        unfolding spec_whitespace_runs.simps [of s] Nil by simp
      ultimately show ?thesis by simp
    next
      case (Cons c cs)
      then have c: "\<not> is_space c"
        using hd_dropWhile [of is_space s] by simp
      have "split_from [] s = split_from [] (dropWhile is_space s)"
        by (rule split_from_skip)
      also have "\<dots> = split_from [] (c # cs)"
        unfolding Cons by simp
      also have "\<dots> = takeWhile (\<lambda>x. \<not> is_space x) (c # cs) #
          split_from [] (dropWhile (\<lambda>x. \<not> is_space x) (c # cs))"
        using c split_from_run [of "[]" "c # cs"] by simp
      also have "\<dots> = takeWhile (\<lambda>x. \<not> is_space x) (c # cs) #
          spec_whitespace_runs (dropWhile (\<lambda>x. \<not> is_space x) (c # cs))"
        using "1.IH" [OF Cons] by simp
      also have "\<dots> = spec_whitespace_runs s"
        unfolding spec_whitespace_runs.simps [of s] Cons by simp
      finally show ?thesis .
    qed
  qed
  then show ?thesis by (simp add: split_def)
qed

lemma space_unchanged:
  assumes "is_space c"
  shows "\<not> is_punctuation c \<and> lower_char c = c"
  using assms by (auto simp add: is_space_def is_punctuation_def lower_char_def is_upper_def Let_def)

lemma lower_char_not_space: "\<not> is_space c \<Longrightarrow> \<not> is_space (lower_char c)"
  by (auto simp add: is_space_def lower_char_def is_upper_def Let_def)

lemma split_leading_space:
  "\<forall>c \<in> set ws. is_space c \<Longrightarrow> split (ws @ s) = split s"
  by (induction ws) (simp_all add: split_def)

lemma split_leading_run:
  assumes "\<forall>c \<in> set w. \<not> is_space c" and "s = [] \<or> is_space (hd s)"
  shows "split (w @ s) = (if w = [] then split s else w # split s)"
proof -
  from assms(2) have t: "takeWhile (\<lambda>x. \<not> is_space x) s = []"
    by (cases s) auto
  from assms(2) have d: "dropWhile (\<lambda>x. \<not> is_space x) s = s"
    by (cases s) auto
  from assms(1) have "takeWhile (\<lambda>x. \<not> is_space x) (w @ s) = w"
    by (simp add: takeWhile_append2 t)
  moreover from assms(1) have "dropWhile (\<lambda>x. \<not> is_space x) (w @ s) = s"
    by (simp add: dropWhile_append2 d)
  ultimately show ?thesis
    using split_from_run [of "[]" "w @ s"] by (simp add: split_def)
qed

lemma tokenize_leading_space:
  assumes "\<forall>c \<in> set ws. is_space c"
  shows "tokenize (ws @ s) = tokenize s"
proof -
  from assms have "filter (\<lambda>c. \<not> is_punctuation c) (map lower_char ws) = ws"
    by (induction ws) (simp_all add: space_unchanged)
  with assms show ?thesis
    by (simp add: tokenize_def lower_def remove_punctuation_def split_leading_space)
qed

lemma tokenize_leading_run:
  assumes "\<forall>c \<in> set w. \<not> is_space c" and "s = [] \<or> is_space (hd s)"
  shows "tokenize (w @ s) =
     (if filter (\<lambda>c. \<not> is_punctuation c) (map lower_char w) = [] then tokenize s
      else filter (\<lambda>c. \<not> is_punctuation c) (map lower_char w) # tokenize s)"
proof -
  let ?clean = "\<lambda>x. filter (\<lambda>c. \<not> is_punctuation c) (map lower_char x)"
  from assms(1) have w: "\<forall>c \<in> set (?clean w). \<not> is_space c"
    by (auto simp add: lower_char_not_space)
  from assms(2) have s: "?clean s = [] \<or> is_space (hd (?clean s))"
    by (cases s) (auto simp add: space_unchanged)
  from split_leading_run [OF w s] show ?thesis
    by (simp add: tokenize_def lower_def remove_punctuation_def)
qed

text \<open>
  C5, as stated, at the index builder: its tokenizer removes the stopword \<open>a\<close>, so
  \<^verbatim>\<open>tokenize("A, B. C!")\<close> is not \<^verbatim>\<open>["a", "b", "c"]\<close> there.
\<close>

theorem index_builder_tokenize_removes_stopwords:
  "index_builder_tokenize ''A, B. C!'' = [''b'', ''c''] \<and>
   index_builder_tokenize ''A, B. C!'' \<noteq> [''a'', ''b'', ''c'']"
proof -
  have "index_builder_tokenize ''A, B. C!'' = [''b'', ''c'']"
    by code_simp
  then show ?thesis by simp
qed

text \<open>
  C5, amended. The query processor's \<^verbatim>\<open>tokenize\<close> (\<^verbatim>\<open>browser.py\<close>) lowercases, deletes
  punctuation and splits at whitespace, and removes nothing else. Its result is the list
  of the maximal runs of non-whitespace characters of the lowercased text without its
  punctuation (\<open>spec_whitespace_runs\<close>); the tokens put together are that text without its
  whitespace; every token is non-empty and has no whitespace, punctuation or upper-case
  character; the empty string gives no token, and
  \<^verbatim>\<open>tokenize("A, B. C!") = ["a", "b", "c"]\<close>. The token boundaries are the whitespace and
  nothing else: whitespace in front of a text changes nothing, and a run of non-whitespace
  characters in front of a text that is empty or starts with whitespace gives one token,
  the run lowercased and without its punctuation (none if nothing is left of it), in front
  of the tokens of the text. The index builder has a tokenizer of its own, which gives the
  same tokens with the builder's stopwords filtered out.
\<close>

theorem tokenize_spec:
  "tokenize [] = [] \<and>
   tokenize ''A, B. C!'' = [''a'', ''b'', ''c''] \<and>
   concat (tokenize text) =
     filter (\<lambda>c. \<not> is_space c) (filter (\<lambda>c. \<not> is_punctuation c) (map lower_char text)) \<and>
   (\<forall>tok \<in> set (tokenize text).
      tok \<noteq> [] \<and> (\<forall>c \<in> set tok. \<not> is_space c \<and> \<not> is_punctuation c \<and> \<not> is_upper c)) \<and>
   index_builder_tokenize text = filter (\<lambda>t. t \<notin> set STOPWORDS) (tokenize text) \<and>
   tokenize text =
     spec_whitespace_runs (filter (\<lambda>c. \<not> is_punctuation c) (map lower_char text)) \<and>
   ((\<forall>c \<in> set ws. is_space c) \<longrightarrow> tokenize (ws @ rest) = tokenize rest) \<and>
   ((\<forall>c \<in> set w. \<not> is_space c) \<and> (rest = [] \<or> is_space (hd rest)) \<longrightarrow>
      tokenize (w @ rest) =
        (if filter (\<lambda>c. \<not> is_punctuation c) (map lower_char w) = [] then tokenize rest
         else filter (\<lambda>c. \<not> is_punctuation c) (map lower_char w) # tokenize rest))"
proof -
  have empty: "tokenize [] = []"
    by (simp add: tokenize_def split_def lower_def remove_punctuation_def)
  have example: "tokenize ''A, B. C!'' = [''a'', ''b'', ''c'']"
    by code_simp
  have joined: "concat (tokenize text) =
      filter (\<lambda>c. \<not> is_space c) (filter (\<lambda>c. \<not> is_punctuation c) (map lower_char text))"
    by (simp add: tokenize_def split_def lower_def remove_punctuation_def concat_split_from)
  have tokens: "\<forall>tok \<in> set (tokenize text).
      tok \<noteq> [] \<and> (\<forall>c \<in> set tok. \<not> is_space c \<and> \<not> is_punctuation c \<and> \<not> is_upper c)"
  proof
    fix tok
    assume "tok \<in> set (tokenize text)"
    then have t: "tok \<noteq> [] \<and> set tok \<subseteq> {c \<in> set (remove_punctuation (lower text)). \<not> is_space c}"
      unfolding tokenize_def by (rule split_tokens)
    have "\<not> is_space c \<and> \<not> is_punctuation c \<and> \<not> is_upper c" if "c \<in> set tok" for c
    proof -
      from t that have c: "c \<in> set (remove_punctuation (lower text))" and s: "\<not> is_space c"
        by auto
      from c have "\<not> is_punctuation c" and "c \<in> lower_char ` set text"
        by (auto simp add: remove_punctuation_def lower_def)
      with s show ?thesis
        using lower_char_not_upper by auto
    qed
    with t show "tok \<noteq> [] \<and> (\<forall>c \<in> set tok. \<not> is_space c \<and> \<not> is_punctuation c \<and> \<not> is_upper c)"
      by blast
  qed
  have builder: "index_builder_tokenize text = filter (\<lambda>t. t \<notin> set STOPWORDS) (tokenize text)"
    by (simp add: index_builder_tokenize_def tokenize_def)
  have runs: "tokenize text =
      spec_whitespace_runs (filter (\<lambda>c. \<not> is_punctuation c) (map lower_char text))"
    by (simp add: tokenize_def lower_def remove_punctuation_def split_spec_whitespace_runs)
  have spaces: "(\<forall>c \<in> set ws. is_space c) \<longrightarrow> tokenize (ws @ rest) = tokenize rest"
    using tokenize_leading_space [of ws rest] by blast
  have run: "(\<forall>c \<in> set w. \<not> is_space c) \<and> (rest = [] \<or> is_space (hd rest)) \<longrightarrow>
      tokenize (w @ rest) =
        (if filter (\<lambda>c. \<not> is_punctuation c) (map lower_char w) = [] then tokenize rest
         else filter (\<lambda>c. \<not> is_punctuation c) (map lower_char w) # tokenize rest)"
    using tokenize_leading_run [of w rest] by blast
  from empty example joined tokens builder runs spaces run show ?thesis
    by blast
qed

theorem tokenize_spec_witness:
  "concat (tokenize ''The Red-Hat!'') = ''theredhat'' \<and>
   index_builder_tokenize ''The Red-Hat!'' = [''redhat''] \<and>
   tokenize ''red hat'' = [''red'', ''hat'']"
proof -
  have t: "tokenize ''The Red-Hat!'' = [''the'', ''redhat'']"
    by code_simp
  have f: "filter (\<lambda>t. t \<notin> set STOPWORDS) [''the'', ''redhat''] = [''redhat'']"
    by code_simp
  from tokenize_spec [of "''The Red-Hat!''"]
  have "index_builder_tokenize ''The Red-Hat!'' =
      filter (\<lambda>t. t \<notin> set STOPWORDS) (tokenize ''The Red-Hat!'')"
    by blast
  with t f have first: "concat (tokenize ''The Red-Hat!'') = ''theredhat'' \<and>
      index_builder_tokenize ''The Red-Hat!'' = [''redhat'']"
    by simp
  have sp: "is_space CHR '' ''"
    and ns: "\<forall>c \<in> set ''red''. \<not> is_space c" "\<forall>c \<in> set ''hat''. \<not> is_space c"
    by (simp_all add: is_space_def)
  have clean: "filter (\<lambda>c. \<not> is_punctuation c) (map lower_char ''red'') = ''red''"
    "filter (\<lambda>c. \<not> is_punctuation c) (map lower_char ''hat'') = ''hat''"
    by (simp_all add: is_punctuation_def lower_char_def is_upper_def)
  from tokenize_spec [of "[]" "'' ''" "''hat''" "[]"]
  have "(\<forall>c \<in> set '' ''. is_space c) \<longrightarrow> tokenize ('' '' @ ''hat'') = tokenize ''hat''"
    by blast
  with sp have a: "tokenize '' hat'' = tokenize ''hat''"
    by simp
  from tokenize_spec [of "[]" "[]" "[]" "''hat''"]
  have "(\<forall>c \<in> set ''hat''. \<not> is_space c) \<and> ([] = [] \<or> is_space (hd [])) \<longrightarrow>
      tokenize (''hat'' @ []) =
        (if filter (\<lambda>c. \<not> is_punctuation c) (map lower_char ''hat'') = [] then tokenize []
         else filter (\<lambda>c. \<not> is_punctuation c) (map lower_char ''hat'') # tokenize [])"
    and e: "tokenize [] = []"
    by blast+
  with ns(2) have b: "tokenize ''hat'' = [''hat'']"
    unfolding clean(2) by simp
  from tokenize_spec [of "[]" "[]" "'' hat''" "''red''"]
  have "(\<forall>c \<in> set ''red''. \<not> is_space c) \<and> ('' hat'' = [] \<or> is_space (hd '' hat'')) \<longrightarrow>
      tokenize (''red'' @ '' hat'') =
        (if filter (\<lambda>c. \<not> is_punctuation c) (map lower_char ''red'') = [] then tokenize '' hat''
         else filter (\<lambda>c. \<not> is_punctuation c) (map lower_char ''red'') # tokenize '' hat'')"
    by blast
  with ns(1) sp have "tokenize ''red hat'' = ''red'' # tokenize '' hat''"
    unfolding clean(1) by simp
  with a b have "tokenize ''red hat'' = [''red'', ''hat'']"
    by simp
  with first show ?thesis by simp
qed

section \<open>The positional index\<close>

lemma positions_from_bounds:
  "i \<in> set (positions_from n t xs) \<Longrightarrow> n \<le> i \<and> i < n + length xs"
  by (induction xs arbitrary: n) (fastforce split: if_splits)+

lemma positions_from_member:
  "i \<in> set (positions_from n t xs) \<longleftrightarrow> n \<le> i \<and> i < n + length xs \<and> xs ! (i - n) = t"
proof (induction xs arbitrary: n)
  case Nil
  then show ?case by simp
next
  case (Cons x xs)
  have "i - n - 1 = i - Suc n" by simp
  then show ?case
    using Cons [of "Suc n"] by (auto simp add: nth_Cons')
qed

lemma positions_from_sorted: "sorted_wrt (<) (positions_from n t xs)"
proof (induction xs arbitrary: n)
  case Nil
  then show ?case by simp
next
  case (Cons x xs)
  have "n < i" if "i \<in> set (positions_from (Suc n) t xs)" for i
    using positions_from_bounds [OF that] by simp
  with Cons show ?case by simp
qed

lemma positions_from_length: "length (positions_from n t xs) = count_list xs t"
  by (induction xs arbitrary: n) simp_all

lemma positions_from_absent: "t \<notin> set xs \<Longrightarrow> positions_from n t xs = []"
  by (induction xs arbitrary: n) auto

lemma map_of_append_position:
  "map_of (append_position idx t pm) =
     (map_of pm)(t \<mapsto> (case map_of pm t of None \<Rightarrow> [] | Some ps \<Rightarrow> ps) @ [idx])"
  by (simp add: append_position_def update_conv')

lemma map_of_fold_append_position:
  "map_of (fold (\<lambda>(idx, t) pm. append_position idx t pm) (enumerate n toks) pm0) t =
     (if t \<in> set toks
      then Some ((case map_of pm0 t of None \<Rightarrow> [] | Some ps \<Rightarrow> ps) @ positions_from n t toks)
      else map_of pm0 t)"
proof (induction toks arbitrary: n pm0)
  case Nil
  then show ?case by simp
next
  case (Cons x xs)
  show ?case
    by (simp add: Cons map_of_append_position positions_from_absent split: option.splits)
qed

lemma map_of_positions_of:
  "map_of (positions_of toks) t =
     (if t \<in> set toks then Some (positions_from 0 t toks) else None)"
  by (simp add: positions_of_def map_of_fold_append_position)

lemma lookup_set_posting:
  "lookup_positions (set_posting token u ps index) token' u' =
     (if token' = token \<and> u' = u then Some ps else lookup_positions index token' u')"
  by (simp add: lookup_positions_def set_posting_def update_conv' split: option.splits)

lemma lookup_fold_set_posting:
  "lookup_positions (fold (\<lambda>token idx. set_posting token u (f token) idx) tokens index) token' u' =
     (if token' \<in> set tokens \<and> u' = u then Some (f token') else lookup_positions index token' u')"
  by (induction tokens arbitrary: index) (auto simp add: lookup_set_posting)

lemma lookup_index_document:
  "lookup_positions (index_document field doc index) token u =
     (if token \<in> set (index_builder_tokenize (field_text field doc)) \<and> u = url doc
      then Some (positions_from 0 token (index_builder_tokenize (field_text field doc)))
      else lookup_positions index token u)"
  by (simp add: index_document_def Let_def lookup_fold_set_posting map_of_positions_of)

lemma lookup_fold_other_url:
  "u \<notin> url ` set documents \<Longrightarrow>
   lookup_positions (fold (index_document field) documents index) token u =
     lookup_positions index token u"
  by (induction documents arbitrary: index) (simp_all add: lookup_index_document)

lemma lookup_build:
  assumes "distinct (map url documents)" and "doc \<in> set documents"
    and "lookup_positions index token (url doc) = None"
  shows "lookup_positions (fold (index_document field) documents index) token (url doc) =
     (if token \<in> set (index_builder_tokenize (field_text field doc))
      then Some (positions_from 0 token (index_builder_tokenize (field_text field doc)))
      else None)"
  using assms
proof (induction documents arbitrary: index)
  case Nil
  then show ?case by simp
next
  case (Cons d ds)
  show ?case
  proof (cases "doc = d")
    case True
    with Cons.prems have "url doc \<notin> url ` set ds" by auto
    then show ?thesis
      using True Cons.prems(3) by (simp add: lookup_fold_other_url lookup_index_document)
  next
    case False
    with Cons.prems have "doc \<in> set ds" "url d \<noteq> url doc" "distinct (map url ds)"
      by auto
    then show ?thesis
      using Cons.IH [of "index_document field d index"] Cons.prems(3)
      by (simp add: lookup_index_document)
  qed
qed

lemma stored_positions_origin:
  "lookup_positions (fold (index_document field) documents index) token u = Some ps \<Longrightarrow>
   lookup_positions index token u = Some ps \<or>
   (\<exists>doc \<in> set documents. url doc = u \<and> token \<in> set (index_builder_tokenize (field_text field doc)) \<and>
      ps = positions_from 0 token (index_builder_tokenize (field_text field doc)))"
proof (induction documents arbitrary: index)
  case Nil
  then show ?case by simp
next
  case (Cons d ds)
  from Cons.IH [OF Cons.prems [simplified]] show ?case
    by (auto simp add: lookup_index_document split: if_splits)
qed

text \<open>
  C7, as stated, on a list with one URL twice: the second document overwrites the entry
  of the first, so the list stored for the first document's URL has one position, while
  the token occurs twice in the first document's title.
\<close>

theorem build_inverted_index_duplicate_url:
  "lookup_positions
     (build_inverted_index
        [\<lparr>url = Some ''u'', text_fields = [(''title'', ''red red'')],
            product_reviews = None, reviews = None\<rparr>,
         \<lparr>url = Some ''u'', text_fields = [(''title'', ''red'')],
            product_reviews = None, reviews = None\<rparr>]
        ''title'') ''red'' (Some ''u'') = Some [0] \<and>
   count_list (index_builder_tokenize ''red red'') ''red'' = 2"
  by code_simp

text \<open>
  C7, amended: for every document list, field name and token, a position list stored by
  \<^verbatim>\<open>build_inverted_index\<close> for the token and a URL is strictly increasing and is the list
  of the 0-based positions of the token in the tokenized field text of some document of
  the list with that URL, so its length is the number of occurrences of the token in that
  document. When the URLs of the list are pairwise distinct, then for every document of
  the list a position list is stored for the token and the document's URL exactly when
  the token occurs in the document's tokenized field text, and it is the list of this
  document: strictly increasing, holding exactly the indexes at which the token stands,
  of length the number of occurrences of the token.
\<close>

theorem build_inverted_index_positions:
  "(lookup_positions (build_inverted_index documents field) token u = Some ps \<longrightarrow>
      sorted_wrt (<) ps \<and>
      (\<exists>d \<in> set documents.
         url d = u \<and>
         (let split_tokens = index_builder_tokenize (field_text field d)
          in set ps = {i. i < length split_tokens \<and> split_tokens ! i = token} \<and>
             length ps = count_list split_tokens token))) \<and>
   (distinct (map url documents) \<and> doc \<in> set documents \<longrightarrow>
      (let split_tokens = index_builder_tokenize (field_text field doc)
       in case lookup_positions (build_inverted_index documents field) token (url doc) of
            None \<Rightarrow> token \<notin> set split_tokens
          | Some qs \<Rightarrow>
              token \<in> set split_tokens \<and>
              sorted_wrt (<) qs \<and>
              set qs = {i. i < length split_tokens \<and> split_tokens ! i = token} \<and>
              length qs = count_list split_tokens token))"
proof -
  have empty: "lookup_positions [] token u' = None" for u' :: "string option"
    by (simp add: lookup_positions_def)
  have members: "set (positions_from 0 token xs) = {i. i < length xs \<and> xs ! i = token}"
    for xs :: "string list"
    using positions_from_member [of _ 0 token xs] by auto
  have stored: "sorted_wrt (<) ps \<and>
      (\<exists>d \<in> set documents.
         url d = u \<and>
         (let split_tokens = index_builder_tokenize (field_text field d)
          in set ps = {i. i < length split_tokens \<and> split_tokens ! i = token} \<and>
             length ps = count_list split_tokens token))"
    if "lookup_positions (build_inverted_index documents field) token u = Some ps"
  proof -
    from that stored_positions_origin [of field documents "[]" token u ps]
    obtain d where d: "d \<in> set documents" "url d = u"
      and ps: "ps = positions_from 0 token (index_builder_tokenize (field_text field d))"
      by (auto simp add: build_inverted_index_def empty)
    from ps have "sorted_wrt (<) ps"
      by (simp add: positions_from_sorted)
    moreover from ps have
      "let split_tokens = index_builder_tokenize (field_text field d)
       in set ps = {i. i < length split_tokens \<and> split_tokens ! i = token} \<and>
          length ps = count_list split_tokens token"
      by (simp add: Let_def members positions_from_length)
    ultimately show ?thesis using d by blast
  qed
  have own: "let split_tokens = index_builder_tokenize (field_text field doc)
       in case lookup_positions (build_inverted_index documents field) token (url doc) of
            None \<Rightarrow> token \<notin> set split_tokens
          | Some qs \<Rightarrow>
              token \<in> set split_tokens \<and>
              sorted_wrt (<) qs \<and>
              set qs = {i. i < length split_tokens \<and> split_tokens ! i = token} \<and>
              length qs = count_list split_tokens token"
    if "distinct (map url documents)" and "doc \<in> set documents"
  proof -
    from that empty have
      "lookup_positions (build_inverted_index documents field) token (url doc) =
         (if token \<in> set (index_builder_tokenize (field_text field doc))
          then Some (positions_from 0 token (index_builder_tokenize (field_text field doc)))
          else None)"
      unfolding build_inverted_index_def by (rule lookup_build)
    then show ?thesis
      by (simp add: Let_def members positions_from_sorted positions_from_length)
  qed
  from stored own show ?thesis by blast
qed

theorem build_inverted_index_positions_witness:
  "lookup_positions
     (build_inverted_index
        [\<lparr>url = Some ''u1'', text_fields = [(''title'', ''Red hat, red scarf'')],
            product_reviews = None, reviews = None\<rparr>,
         \<lparr>url = Some ''u2'', text_fields = [(''title'', ''Blue scarf'')],
            product_reviews = None, reviews = None\<rparr>]
        ''title'') ''red'' (Some ''u1'') = Some [0, 2] \<and>
   count_list (index_builder_tokenize ''Red hat, red scarf'') ''red'' = 2"
proof -
  let ?d1 = "\<lparr>url = Some ''u1'', text_fields = [(''title'', ''Red hat, red scarf'')],
            product_reviews = None, reviews = None\<rparr>"
  let ?d2 = "\<lparr>url = Some ''u2'', text_fields = [(''title'', ''Blue scarf'')],
            product_reviews = None, reviews = None\<rparr>"
  have toks: "index_builder_tokenize ''Red hat, red scarf'' = [''red'', ''hat'', ''red'', ''scarf'']"
    by code_simp
  have h: "distinct (map url [?d1, ?d2]) \<and> ?d1 \<in> set [?d1, ?d2]" by simp
  have c: "count_list [''red'', ''hat'', ''red'', ''scarf''] ''red'' = 2"
    by simp
  have s: "{i. i < length [''red'', ''hat'', ''red'', ''scarf''] \<and>
               [''red'', ''hat'', ''red'', ''scarf''] ! i = ''red''} = {0, 2}"
    by (auto simp add: nth_Cons' less_Suc_eq split: if_splits)
  have two: "qs = [0, 2]"
    if "sorted_wrt (<) qs" and "set qs = {0, 2}" and "length qs = 2" for qs :: "nat list"
  proof -
    from that(3) obtain a b where qs: "qs = [a, b]"
      by (metis (no_types, opaque_lifting) One_nat_def Suc_1 Suc_length_conv length_0_conv)
    with that(1, 2) show ?thesis by (auto simp add: doubleton_eq_iff)
  qed
  from build_inverted_index_positions [of "[?d1, ?d2]" "''title''" "''red''" _ _ ?d1] h
  have "let split_tokens = index_builder_tokenize (field_text ''title'' ?d1)
       in case lookup_positions (build_inverted_index [?d1, ?d2] ''title'') ''red'' (url ?d1) of
            None \<Rightarrow> ''red'' \<notin> set split_tokens
          | Some qs \<Rightarrow>
              ''red'' \<in> set split_tokens \<and>
              sorted_wrt (<) qs \<and>
              set qs = {i. i < length split_tokens \<and> split_tokens ! i = ''red''} \<and>
              length qs = count_list split_tokens ''red''"
    by blast
  then show ?thesis
    using toks c s two
    by (auto simp add: Let_def field_text_def split: option.splits)
qed

section \<open>The reviews index\<close>

lemma index_reviews_no_reviews:
  assumes "product_reviews doc = None \<or> product_reviews doc = Some []"
  shows "index_reviews doc ridx =
     Inr (AList.update (url doc) \<lparr>total_reviews = 0, mean_mark = 0, last_rating = 0\<rparr> ridx)"
  using assms by (auto simp add: index_reviews_def)

lemma index_reviews_rated:
  assumes "product_reviews doc = Some revs" and "List.map_filter rating revs \<noteq> []"
  shows "index_reviews doc ridx =
     Inr (AList.update (url doc)
            \<lparr>total_reviews = length (List.map_filter rating revs),
               mean_mark = sum_list (List.map_filter rating revs) /
                 real (length (List.map_filter rating revs)),
               last_rating = last (List.map_filter rating revs)\<rparr>
            ridx)"
proof -
  from assms(2) have "revs \<noteq> []"
    by (auto simp add: List.map_filter_def)
  with assms show ?thesis
    by (simp add: index_reviews_def mean_def last_item_def Let_def)
qed

lemma index_reviews_unrated:
  assumes "product_reviews doc = Some revs" and "revs \<noteq> []"
    and "List.map_filter rating revs = []"
  shows "index_reviews doc ridx = Inl StatisticsError"
  using assms by (simp add: index_reviews_def mean_def Let_def)

text \<open>
  C4 at a document whose only review has no \<^verbatim>\<open>rating\<close> key: the review list is not
  empty, the list of ratings is, and \<^verbatim>\<open>mean\<close> raises \<^verbatim>\<open>StatisticsError\<close>. A document
  with no review gets the zero record, and so would this one if the guard looked at the
  ratings.
\<close>

theorem build_reviews_index_unrated_review:
  "build_reviews_index
     [\<lparr>url = Some ''u'', text_fields = [], product_reviews = Some [\<lparr>rating = None\<rparr>],
        reviews = None\<rparr>] = Inl StatisticsError \<and>
   build_reviews_index
     [\<lparr>url = Some ''u'', text_fields = [], product_reviews = Some [], reviews = None\<rparr>] =
     Inr [(Some ''u'', \<lparr>total_reviews = 0, mean_mark = 0, last_rating = 0\<rparr>)]"
  by (simp add: build_reviews_index_def index_reviews_def mean_def List.map_filter_def)


section \<open>The filters\<close>

lemma map_of_text_postings:
  "map_of (text_postings idx) t = map_option UrlPositions (map_of idx t)"
  by (induction idx) (auto simp add: text_postings_def)

lemma map_of_feature_postings:
  "map_of (feature_postings idx) t = map_option UrlList (map_of idx t)"
  by (induction idx) (auto simp add: feature_postings_def)

lemma map_of_absent: "k \<notin> fst ` set al \<Longrightarrow> map_of al k = None"
  by (simp add: map_of_eq_None_iff)

lemma map_of_present: "map_of al k = Some v \<Longrightarrow> k \<in> fst ` set al"
  by (metis map_of_eq_None_iff option.distinct(1))

lemma filter_any_loop_absent:
  "set tokens \<inter> fst ` set index = {} \<Longrightarrow> filter_any_loop tokens index docs = Inr docs"
  by (induction tokens arbitrary: docs) (simp_all add: map_of_absent)

lemma filter_all_loop_absent:
  "set tokens \<inter> fst ` set index = {} \<Longrightarrow> filter_all_loop tokens index doc_sets = Inr doc_sets"
  by (induction tokens arbitrary: doc_sets) (simp_all add: map_of_absent)

lemma dom_lookup:
  "lookup_positions idx t u \<noteq> None \<longleftrightarrow>
     (\<exists>postings. map_of idx t = Some postings \<and> u \<in> fst ` set postings)"
proof (cases "map_of idx t")
  case None
  then show ?thesis by (simp add: lookup_positions_def)
next
  case (Some postings)
  then show ?thesis
    by (simp add: lookup_positions_def map_of_eq_None_iff)
qed

lemma lookup_urls:
  "map_of idx t = Some postings \<Longrightarrow> {u. lookup_positions idx t u \<noteq> None} = fst ` set postings"
  by (simp add: lookup_positions_def map_of_eq_None_iff)

lemma filter_any_loop_text:
  "filter_any_loop tokens (text_postings idx) docs = Inr (docs \<union> any_token_urls idx tokens)"
proof (induction tokens arbitrary: docs)
  case Nil
  then show ?case by (simp add: any_token_urls_def)
next
  case (Cons t tokens)
  have split_any: "any_token_urls idx (t # tokens) =
      {u. lookup_positions idx t u \<noteq> None} \<union> any_token_urls idx tokens"
    by (auto simp add: any_token_urls_def)
  show ?case
  proof (cases "map_of idx t")
    case None
    then have "{u. lookup_positions idx t u \<noteq> None} = {}"
      by (simp add: lookup_positions_def)
    with None show ?thesis
      by (simp add: map_of_text_postings Cons split_any)
  next
    case (Some postings)
    then have "{u. lookup_positions idx t u \<noteq> None} = fst ` set postings"
      by (rule lookup_urls)
    with Some show ?thesis
      by (simp add: map_of_text_postings Cons split_any Un_assoc)
  qed
qed

lemma filter_any_token_text:
  "filter_any_token tokens (text_postings idx) = Inr (any_token_urls idx tokens)"
  by (simp add: filter_any_token_def filter_any_loop_text)

lemma filter_any_token_absent:
  "set tokens \<inter> fst ` set index = {} \<Longrightarrow> filter_any_token tokens index = Inr {}"
  by (simp add: filter_any_token_def filter_any_loop_absent)

lemma fst_feature_postings: "fst ` set (feature_postings idx) = fst ` set idx"
  by (force simp add: feature_postings_def)

lemma fst_text_postings: "fst ` set (text_postings idx) = fst ` set idx"
  by (force simp add: text_postings_def)

lemma fold_inter: "fold (\<lambda>a b. b \<inter> a) ss s = s \<inter> \<Inter> (set ss)"
  by (induction ss arbitrary: s) auto

lemma filter_all_loop_text:
  "filter_all_loop tokens (text_postings idx) doc_sets =
     Inr (doc_sets @ map (\<lambda>t. {u. lookup_positions idx t u \<noteq> None})
                      (filter (\<lambda>t. t \<in> fst ` set idx) tokens))"
proof (induction tokens arbitrary: doc_sets)
  case Nil
  then show ?case by simp
next
  case (Cons t tokens)
  show ?case
  proof (cases "map_of idx t")
    case None
    then have "t \<notin> fst ` set idx" by (simp add: map_of_eq_None_iff)
    with None show ?thesis
      by (simp add: map_of_text_postings Cons)
  next
    case (Some postings)
    then have "{u. lookup_positions idx t u \<noteq> None} = fst ` set postings"
      by (rule lookup_urls)
    moreover from Some have "t \<in> fst ` set idx"
      by (rule map_of_present)
    ultimately show ?thesis using Some
      by (simp add: map_of_text_postings Cons)
  qed
qed

lemma filter_all_tokens_text:
  "filter_all_tokens tokens (text_postings idx) = Inr (all_token_urls idx tokens)"
proof (cases "filter (\<lambda>t. t \<in> fst ` set idx) tokens")
  case Nil
  then have "set tokens \<inter> fst ` set idx = {}"
    by (auto simp add: filter_empty_conv)
  with Nil show ?thesis
    by (simp add: filter_all_tokens_def filter_all_loop_text all_token_urls_def)
next
  case (Cons t ts)
  then have "t \<in> set (filter (\<lambda>t. t \<in> fst ` set idx) tokens)"
    by simp
  then have ne: "set tokens \<inter> fst ` set idx \<noteq> {}"
    by auto
  have s: "set (t # ts) = set tokens \<inter> fst ` set idx"
    unfolding Cons [symmetric] by auto
  have "{u. lookup_positions idx t u \<noteq> None} \<inter>
        \<Inter> (set (map (\<lambda>t. {u. lookup_positions idx t u \<noteq> None}) ts)) =
        {u. \<forall>t' \<in> set (t # ts). lookup_positions idx t' u \<noteq> None}"
    by auto
  with Cons ne s show ?thesis
    by (simp add: filter_all_tokens_def filter_all_loop_text all_token_urls_def fold_inter del: set_simps)
qed

lemma filter_all_tokens_absent:
  "set tokens \<inter> fst ` set index = {} \<Longrightarrow> filter_all_tokens tokens index = Inr {}"
  by (simp add: filter_all_tokens_def filter_all_loop_absent)

text \<open>
  C1 at a feature index, as \<^verbatim>\<open>build_feature_indexes\<close> writes it for a document with URL
  \<open>u1\<close> and brand \<open>Nike\<close>: the token \<open>nike\<close> maps to the list of URLs \<open>[u1]\<close>, a list has
  no method \<^verbatim>\<open>keys\<close>, and \<^verbatim>\<open>filter_any_token\<close> raises \<^verbatim>\<open>AttributeError\<close>; so does
  \<^verbatim>\<open>filter_documents\<close>, which passes the brand index to it.
\<close>

theorem filter_any_token_feature_index:
  "filter_any_token [''nike''] (feature_postings [(''nike'', [''u1''])]) = Inl AttributeError \<and>
   filter_documents
     \<lparr>title_index = [], description_index = [], brand_index = [(''nike'', [''u1''])],
        origin_index = [], reviews_index = [], stopwords = [], synonyms = []\<rparr>
     [''nike''] = Inl AttributeError"
  by (simp add: filter_any_token_def feature_postings_def text_postings_def filter_documents_def)

text \<open>
  C9: \<^verbatim>\<open>filter_all_tokens\<close> returns the empty set for the empty token list, and for a
  token list none of whose tokens is a key of the index, whatever the index holds.
\<close>

theorem filter_all_tokens_nothing:
  "filter_all_tokens [] index = Inr {} \<and>
   (set tokens \<inter> fst ` set index = {} \<longrightarrow> filter_all_tokens tokens index = Inr {})"
  by (simp add: filter_all_tokens_absent)

theorem filter_all_tokens_nothing_witness:
  "filter_all_tokens [] [(''red'', UrlPositions [(''u'', [0])])] = Inr {} \<and>
   filter_all_tokens [''blue'', ''green''] [(''red'', UrlPositions [(''u'', [0])])] = Inr {}"
  using filter_all_tokens_nothing
    [of "[(''red'', UrlPositions [(''u'', [0])])]" "[''blue'', ''green'']"]
  by simp

text \<open>
  C6, as stated: a query token that is a key of the origin index makes
  \<^verbatim>\<open>filter_documents\<close> raise (the defect of C1); and for the empty token list the
  candidate set is empty, although every title contains all of no tokens.
\<close>

theorem filter_documents_not_union:
  "filter_documents
     \<lparr>title_index = [(''red'', [(''u1'', [0])])], description_index = [], brand_index = [],
        origin_index = [(''france'', [''u1''])], reviews_index = [], stopwords = [],
        synonyms = []\<rparr>
     [''france''] = Inl AttributeError \<and>
   filter_documents
     \<lparr>title_index = [(''red'', [(''u1'', [0])])], description_index = [], brand_index = [],
        origin_index = [(''france'', [''u1''])], reviews_index = [], stopwords = [],
        synonyms = []\<rparr>
     [] = Inr {}"
  by (simp add: filter_any_token_def feature_postings_def text_postings_def filter_documents_def
      filter_all_tokens_def)

text \<open>
  C6, amended: for every token list none of whose tokens is a key of the brand or of the
  origin index, \<^verbatim>\<open>filter_documents\<close> returns exactly the union of \<^verbatim>\<open>filter_any_token\<close>
  on the title, description, brand and origin index and of \<^verbatim>\<open>filter_all_tokens\<close> on the
  title index. On the title and description index \<^verbatim>\<open>filter_any_token\<close> gives the URLs
  with a posting for at least one query token, on the brand and origin index it gives
  nothing, and \<^verbatim>\<open>filter_all_tokens\<close> gives the URLs with a posting for every query token
  that is a key of the title index. So a document whose title has all the tokens of a
  non-empty token list is a candidate, and so is a document that has at least one query
  token in its title or description.
\<close>

theorem filter_documents_union:
  assumes "set tokens \<inter> fst ` set (brand_index eng) = {}"
    and "set tokens \<inter> fst ` set (origin_index eng) = {}"
  shows
    "filter_any_token tokens (text_postings (title_index eng)) =
       Inr (any_token_urls (title_index eng) tokens) \<and>
     filter_any_token tokens (text_postings (description_index eng)) =
       Inr (any_token_urls (description_index eng) tokens) \<and>
     filter_any_token tokens (feature_postings (brand_index eng)) = Inr {} \<and>
     filter_any_token tokens (feature_postings (origin_index eng)) = Inr {} \<and>
     filter_all_tokens tokens (text_postings (title_index eng)) =
       Inr (all_token_urls (title_index eng) tokens) \<and>
     filter_documents eng tokens =
       Inr (any_token_urls (title_index eng) tokens \<union>
            any_token_urls (description_index eng) tokens \<union> {} \<union> {} \<union>
            all_token_urls (title_index eng) tokens) \<and>
     (tokens \<noteq> [] \<and> (\<forall>t \<in> set tokens. lookup_positions (title_index eng) t u \<noteq> None) \<longrightarrow>
        u \<in> all_token_urls (title_index eng) tokens) \<and>
     ((\<exists>t \<in> set tokens. lookup_positions (title_index eng) t u \<noteq> None \<or>
                        lookup_positions (description_index eng) t u \<noteq> None) \<longrightarrow>
        u \<in> any_token_urls (title_index eng) tokens \<union>
            any_token_urls (description_index eng) tokens)"
proof -
  have brand: "filter_any_token tokens (feature_postings (brand_index eng)) = Inr {}"
    using assms(1) by (simp add: filter_any_token_absent fst_feature_postings)
  have origin: "filter_any_token tokens (feature_postings (origin_index eng)) = Inr {}"
    using assms(2) by (simp add: filter_any_token_absent fst_feature_postings)
  have docs: "filter_documents eng tokens =
       Inr (any_token_urls (title_index eng) tokens \<union>
            any_token_urls (description_index eng) tokens \<union> {} \<union> {} \<union>
            all_token_urls (title_index eng) tokens)"
    by (simp add: filter_documents_def filter_any_token_text brand origin filter_all_tokens_text)
  have strict: "u \<in> all_token_urls (title_index eng) tokens"
    if "tokens \<noteq> []" and all: "\<forall>t \<in> set tokens. lookup_positions (title_index eng) t u \<noteq> None"
  proof -
    from that(1) obtain t where t: "t \<in> set tokens"
      by (cases tokens) auto
    with all have "lookup_positions (title_index eng) t u \<noteq> None" by blast
    then obtain postings where "map_of (title_index eng) t = Some postings"
      using dom_lookup [of "title_index eng" t u] by blast
    then have "t \<in> fst ` set (title_index eng)"
      by (rule map_of_present)
    with t have "set tokens \<inter> fst ` set (title_index eng) \<noteq> {}" by blast
    with all show ?thesis
      by (simp add: all_token_urls_def)
  qed
  have any: "u \<in> any_token_urls (title_index eng) tokens \<union>
            any_token_urls (description_index eng) tokens"
    if "\<exists>t \<in> set tokens. lookup_positions (title_index eng) t u \<noteq> None \<or>
                        lookup_positions (description_index eng) t u \<noteq> None"
    using that unfolding any_token_urls_def by blast
  from brand origin docs strict any show ?thesis
    by (simp add: filter_any_token_text filter_all_tokens_text)
qed

theorem filter_documents_union_witness:
  "filter_documents
     \<lparr>title_index = [(''red'', [(''u1'', [0])]), (''hat'', [(''u1'', [1]), (''u2'', [0])])],
        description_index = [(''warm'', [(''u3'', [1])])],
        brand_index = [(''nike'', [''u1''])], origin_index = [], reviews_index = [],
        stopwords = [], synonyms = []\<rparr>
     [''red'', ''hat'', ''warm''] = Inr {''u1'', ''u2'', ''u3''} \<and>
   ''u1'' \<in> all_token_urls [(''red'', [(''u1'', [0])]), (''hat'', [(''u1'', [1]), (''u2'', [0])])]
            [''red'', ''hat'']"
proof -
  let ?t = "[(''red'', [(''u1'', [0::nat])]), (''hat'', [(''u1'', [1]), (''u2'', [0])])]"
  let ?e = "\<lparr>title_index = ?t,
        description_index = [(''warm'', [(''u3'', [1])])],
        brand_index = [(''nike'', [''u1''])], origin_index = [], reviews_index = [],
        stopwords = [], synonyms = []\<rparr>"
  have run: "filter_documents ?e [''red'', ''hat'', ''warm''] = Inr {''u1'', ''u2'', ''u3''}"
    by (simp add: filter_any_token_def feature_postings_def text_postings_def
        filter_documents_def filter_all_tokens_def insert_commute)
  have h1: "set [''red'', ''hat''] \<inter> fst ` set (brand_index ?e) = {}" by simp
  have h2: "set [''red'', ''hat''] \<inter> fst ` set (origin_index ?e) = {}" by simp
  have "\<forall>t \<in> set [''red'', ''hat'']. lookup_positions ?t t ''u1'' \<noteq> None"
    by (simp add: lookup_positions_def)
  with filter_documents_union [OF h1 h2, of "''u1''"]
  have "''u1'' \<in> all_token_urls ?t [''red'', ''hat'']"
    by simp
  with run show ?thesis by simp
qed


section \<open>BM25\<close>

lemma idf_argument_positive:
  fixes df N :: real
  assumes "0 \<le> df" and "0 \<le> N"
  shows "0 < 1 + (N - df + 0.5) / (df + 0.5)"
proof -
  have "1 + (N - df + 0.5) / (df + 0.5) = (N + 1) / (df + 0.5)"
    using assms by (simp add: field_simps)
  also have "0 < (N + 1) / (df + 0.5)"
    using assms by simp
  finally show ?thesis .
qed

lemma bm25_score_avgdl_zero:
  assumes "0 \<le> df" and "0 \<le> N"
  shows "bm25_score tf df doc_len 0 N k1 b = Inl ZeroDivisionError"
proof -
  from assms(1) have "df + 0.5 \<noteq> 0" by simp
  moreover from idf_argument_positive [OF assms]
  have "\<not> 1 + (N - df + 0.5) / (df + 0.5) \<le> 0" by simp
  ultimately show ?thesis
    unfolding bm25_score_def by simp
qed

lemma score_postings_avgdl_zero:
  assumes "postings \<noteq> []" and "0 \<le> df" and "0 \<le> N"
  shows "score_postings postings df doc_lengths 0 N scores = Inl ZeroDivisionError"
proof (cases postings)
  case Nil
  with assms show ?thesis by simp
next
  case (Cons p ps)
  obtain u positions where "p = (u, positions)" by (cases p)
  with Cons assms show ?thesis
    by (simp add: bm25_score_avgdl_zero Let_def)
qed

lemma bm25_loop_avgdl_zero:
  assumes "0 \<le> N"
  shows "bm25_loop tokens index doc_lengths 0 N scores =
     (if \<exists>t \<in> set tokens. map_of index t \<notin> {None, Some []} then Inl ZeroDivisionError
      else Inr scores)"
proof (induction tokens)
  case Nil
  then show ?case by simp
next
  case (Cons t tokens)
  show ?case
  proof (cases "map_of index t")
    case None
    with Cons show ?thesis by simp
  next
    case (Some postings)
    show ?thesis
    proof (cases "postings = []")
      case True
      with Some Cons show ?thesis by simp
    next
      case False
      with Some assms show ?thesis
        by (simp add: score_postings_avgdl_zero)
    qed
  qed
qed

text \<open>
  C2, as stated: with an empty table of document lengths \<^verbatim>\<open>N = 0\<close> and
  \<^verbatim>\<open>sum(doc_lengths.values()) / N\<close> raises \<^verbatim>\<open>ZeroDivisionError\<close>; with one document of
  length 0 the average length is 0 and \<^verbatim>\<open>bm25_score\<close> divides by it.
\<close>

theorem bm25_unguarded:
  "bm25 [''red''] [(''red'', [(''u'', [0])])] [] = Inl ZeroDivisionError \<and>
   bm25 [''red''] [(''red'', [(''u'', [0])])] [(''u'', 0)] = Inl ZeroDivisionError"
  by (simp add: bm25_def bm25_score_def)

text \<open>
  C2, amended: for every token list and index, \<^verbatim>\<open>bm25\<close> raises \<^verbatim>\<open>ZeroDivisionError\<close>
  when the table of document lengths is empty; when the table is not empty and the
  lengths sum to 0 (\<^verbatim>\<open>avgdl = 0\<close>), it raises \<^verbatim>\<open>ZeroDivisionError\<close> if some query token
  is a key of the index with a non-empty posting, and returns the empty score mapping
  otherwise.
\<close>

theorem bm25_zero_division:
  "bm25 tokens index [] = Inl ZeroDivisionError \<and>
   (doc_lengths \<noteq> [] \<and> sum_list (map snd doc_lengths) = 0 \<longrightarrow>
      bm25 tokens index doc_lengths =
        (if \<exists>t \<in> set tokens. map_of index t \<notin> {None, Some []} then Inl ZeroDivisionError
         else Inr []))"
  by (simp add: bm25_def bm25_loop_avgdl_zero)

theorem bm25_zero_division_witness:
  "bm25 [''red''] [(''red'', [(''u'', [0])])] [(''u'', 0)] = Inl ZeroDivisionError \<and>
   bm25 [''blue''] [(''red'', [(''u'', [0])])] [(''u'', 0)] = Inr []"
  using bm25_zero_division [of "[''red'']" "[(''red'', [(''u'', [0])])]" "[(''u'', 0)]"]
    bm25_zero_division [of "[''blue'']" "[(''red'', [(''u'', [0])])]" "[(''u'', 0)]"]
  by simp

text \<open>
  C8, as stated: with \<^verbatim>\<open>df = 2\<close> and \<^verbatim>\<open>N = 1\<close> (\<^verbatim>\<open>bm25\<close> takes \<^verbatim>\<open>N\<close> from the table
  of document lengths and \<^verbatim>\<open>df\<close> from the index, and gives a URL that the table lacks the
  length 1), the logarithm is negative and the score falls as \<^verbatim>\<open>tf\<close> grows from 1 to 2;
  \<^verbatim>\<open>avgdl\<close> and the denominators are not zero.
\<close>

theorem bm25_score_decreasing:
  "bm25_score 1 2 1 1 1 1.5 0.75 = Inr (ln (4 / 5)) \<and>
   bm25_score 2 2 1 1 1 1.5 0.75 = Inr (ln (4 / 5) * (10 / 7)) \<and>
   ln (4 / 5) * (10 / 7) < ln (4 / 5 :: real)"
proof -
  have neg: "ln (4 / 5 :: real) < 0"
    by (simp add: ln_less_zero_iff)
  have a: "bm25_score 1 2 1 1 1 1.5 0.75 = Inr (ln (4 / 5))"
    by (simp add: bm25_score_def)
  have b: "bm25_score 2 2 1 1 1 1.5 0.75 = Inr (ln (4 / 5) * (10 / 7))"
    by (simp add: bm25_score_def)
  from neg have "ln (4 / 5) * (10 / 7) < ln (4 / 5 :: real)"
    by simp
  with a b show ?thesis by simp
qed

text \<open>
  C8, amended: for \<^verbatim>\<open>0 \<le> df \<le> N\<close>, \<^verbatim>\<open>doc_len \<ge> 0\<close> and \<^verbatim>\<open>avgdl > 0\<close>, and term
  frequencies \<^verbatim>\<open>0 \<le> tf1 < tf2\<close>, \<^verbatim>\<open>bm25_score\<close> returns for both and the score of
  \<^verbatim>\<open>tf1\<close> is strictly below the score of \<^verbatim>\<open>tf2\<close> (in exact arithmetic).
\<close>

theorem bm25_score_increasing:
  assumes "0 \<le> tf1" and "tf1 < tf2" and "0 \<le> df" and "df \<le> N"
    and "0 \<le> doc_len" and "0 < avgdl"
  shows "\<exists>s1 s2. bm25_score tf1 df doc_len avgdl N 1.5 0.75 = Inr s1 \<and>
                 bm25_score tf2 df doc_len avgdl N 1.5 0.75 = Inr s2 \<and> s1 < s2"
proof -
  define K :: real where "K = 1.5 * (1 - 0.75 + 0.75 * doc_len / avgdl)"
  define idf :: real where "idf = ln (1 + (N - df + 0.5) / (df + 0.5))"
  from assms have "0 \<le> 0.75 * doc_len / avgdl" by simp
  then have K: "0 < K" unfolding K_def by simp
  from assms have "0 < (N - df + 0.5) / (df + 0.5)" by simp
  then have arg: "1 < 1 + (N - df + 0.5) / (df + 0.5)" by simp
  then have idf: "0 < idf" unfolding idf_def by simp
  have score: "bm25_score tf df doc_len avgdl N 1.5 0.75 = Inr (idf * ((tf * (1.5 + 1)) / (tf + K)))"
    if "0 \<le> tf" for tf
  proof -
    from that K have "tf + K \<noteq> 0" by simp
    moreover from assms have "df + 0.5 \<noteq> 0" "avgdl \<noteq> 0" by simp_all
    moreover from arg have "\<not> 1 + (N - df + 0.5) / (df + 0.5) \<le> 0" by simp
    ultimately show ?thesis
      unfolding bm25_score_def K_def idf_def by simp
  qed
  from assms have tf2: "0 \<le> tf2" by simp
  have p1: "0 < tf1 + K" and p2: "0 < tf2 + K"
    using assms(1) tf2 K by simp_all
  have "tf1 * K < tf2 * K"
    using assms(2) K by simp
  with p1 p2 have "(tf1 * (1.5 + 1)) / (tf1 + K) < (tf2 * (1.5 + 1)) / (tf2 + K)"
    by (simp add: field_simps)
  with idf have "idf * ((tf1 * (1.5 + 1)) / (tf1 + K)) < idf * ((tf2 * (1.5 + 1)) / (tf2 + K))"
    by (rule mult_strict_left_mono [rotated])
  with score [OF assms(1)] score [OF tf2] show ?thesis by blast
qed

theorem bm25_score_increasing_witness:
  "\<exists>s1 s2. bm25_score 1 1 3 2 4 1.5 0.75 = Inr s1 \<and> bm25_score 2 1 3 2 4 1.5 0.75 = Inr s2 \<and> s1 < s2"
  using bm25_score_increasing [of 1 2 1 4 3 2] by simp


section \<open>The ranking score\<close>

lemma score_tokens_value:
  assumes "set tokens \<inter> fst ` set (reviews_index eng) = {} \<or> doc \<notin> set reviews_entry_keys"
  shows "score_tokens eng doc tokens score =
     Inr (score + 3 * (\<Sum>t\<leftarrow>tokens. real (posting_length (title_index eng) t doc))
                + 1 * (\<Sum>t\<leftarrow>tokens. real (posting_length (description_index eng) t doc)))"
  using assms
proof (induction tokens arbitrary: score)
  case Nil
  then show ?case by simp
next
  case (Cons t tokens)
  from Cons.prems have here: "map_of (reviews_index eng) t = None \<or> doc \<notin> set reviews_entry_keys"
    by (auto simp add: map_of_absent)
  from Cons.prems have rest:
    "set tokens \<inter> fst ` set (reviews_index eng) = {} \<or> doc \<notin> set reviews_entry_keys"
    by auto
  from here show ?case
    by (auto simp add: Cons.IH [OF rest] Let_def algebra_simps)
qed

lemma score_tokens_type_error:
  assumes "t \<in> set tokens" and "t \<in> fst ` set (reviews_index eng)"
    and "doc \<in> set reviews_entry_keys"
  shows "score_tokens eng doc tokens score = Inl TypeError"
  using assms(1)
proof (induction tokens arbitrary: score)
  case Nil
  then show ?case by simp
next
  case (Cons a tokens)
  show ?case
  proof (cases "map_of (reviews_index eng) a = None")
    case True
    with assms(2) have "a \<noteq> t"
      by (auto simp add: map_of_eq_None_iff)
    with Cons True show ?thesis by (simp add: Let_def)
  next
    case False
    with assms(3) show ?thesis by (simp add: Let_def)
  qed
qed

lemma compute_score_value:
  assumes "set tokens \<inter> fst ` set (reviews_index eng) = {} \<or> doc \<notin> set reviews_entry_keys"
  shows "compute_score eng doc tokens st =
     Inr (3 * (\<Sum>t\<leftarrow>tokens. real (posting_length (title_index eng) t doc))
          + 1 * (\<Sum>t\<leftarrow>tokens. real (posting_length (description_index eng) t doc))
          + 5 * real (exact_match_score tokens (title_tokens st))
          + 0.1 * real (review_count st))"
  by (simp add: compute_score_def score_tokens_value [OF assms])

text \<open>
  C3 at a query token that is a URL of the reviews index and a document whose URL is the
  name of a key of its entries: \<^verbatim>\<open>reviews_index[t][doc]\<close> is the number stored under that
  key, and \<^verbatim>\<open>len\<close> of a number raises \<^verbatim>\<open>TypeError\<close>. The loop reads the
  index of review statistics where it means an index of review text; everywhere else
  (\<open>compute_score_value\<close>) the score is the sum without any term for the reviews.
\<close>

theorem compute_score_type_error:
  "compute_score
     \<lparr>title_index = [], description_index = [], brand_index = [], origin_index = [],
        reviews_index = [(''u'', \<lparr>total_reviews = 0, mean_mark = 0, last_rating = 0\<rparr>)],
        stopwords = [], synonyms = []\<rparr>
     ''total_reviews'' [''u'']
     \<lparr>title = ''T'', description = [], title_tokens = [''t''], review_count = 0,
        doc_length = 0\<rparr> = Inl TypeError"
  by (simp add: compute_score_def reviews_entry_keys_def)

section \<open>Search\<close>

lemma search_loop_absent:
  assumes "\<exists>d \<in> set docs. map_of md d = None"
  shows "\<exists>e. search_loop eng tokens md docs rs = Inl e"
  using assms
proof (induction docs arbitrary: rs)
  case Nil
  then show ?case by simp
next
  case (Cons d docs)
  show ?case
  proof (cases "map_of md d")
    case None
    then show ?thesis by simp
  next
    case (Some st)
    with Cons.prems have "\<exists>d \<in> set docs. map_of md d = None" by auto
    from Cons.IH [OF this] Some show ?thesis
      by (cases "compute_score eng d tokens st") simp_all
  qed
qed

lemma search_loop_key_error:
  assumes "set tokens \<inter> fst ` set (reviews_index eng) = {} \<or> set docs \<inter> set reviews_entry_keys = {}"
    and "find (\<lambda>d. map_of md d = None) docs = Some u"
  shows "search_loop eng tokens md docs rs = Inl (KeyError u)"
  using assms
proof (induction docs arbitrary: rs)
  case Nil
  then show ?case by simp
next
  case (Cons d docs)
  show ?case
  proof (cases "map_of md d")
    case None
    with Cons.prems(2) show ?thesis by simp
  next
    case (Some st)
    from Cons.prems(1) have
      "set tokens \<inter> fst ` set (reviews_index eng) = {} \<or> d \<notin> set reviews_entry_keys"
      by auto
    from compute_score_value [OF this] obtain s where "compute_score eng d tokens st = Inr s"
      by blast
    moreover from Cons.prems(1) have
      "set tokens \<inter> fst ` set (reviews_index eng) = {} \<or> set docs \<inter> set reviews_entry_keys = {}"
      by auto
    moreover from Cons.prems(2) Some have "find (\<lambda>d. map_of md d = None) docs = Some u"
      by simp
    ultimately show ?thesis
      using Some Cons.IH by simp
  qed
qed

text \<open>
  What \<^verbatim>\<open>search\<close> does when a candidate has no metadata: if \<^verbatim>\<open>filter_documents\<close> returns
  a candidate set and some candidate URL is not a key of \<^verbatim>\<open>documents_metadata\<close>, then
  \<^verbatim>\<open>search\<close> returns no result set, whatever the order in which the set is iterated.
  Where scoring cannot fail (no query token is a URL of the reviews index, or no candidate
  URL is the name of a key of its entries), the error is \<^verbatim>\<open>KeyError\<close> for the first
  candidate of the iteration that has no metadata.
\<close>

lemma search_raises_without_metadata:
  assumes "filter_documents eng (process_query eng enum q) = Inr S"
    and "set (enum S) = S" and "u \<in> S" and "map_of md u = None"
  shows "(\<exists>e. search eng enum q md = Inl e) \<and>
     (set (process_query eng enum q) \<inter> fst ` set (reviews_index eng) = {} \<or>
      S \<inter> set reviews_entry_keys = {} \<longrightarrow>
        (\<exists>u'. find (\<lambda>d. map_of md d = None) (enum S) = Some u' \<and>
              search eng enum q md = Inl (KeyError u')))"
proof -
  from assms(2-4) have absent: "\<exists>d \<in> set (enum S). map_of md d = None"
    by auto
  from search_loop_absent [OF absent] obtain e
    where "search_loop eng (process_query eng enum q) md (enum S) [] = Inl e"
    by blast
  with assms(1) have raises: "\<exists>e. search eng enum q md = Inl e"
    by (simp add: search_def Let_def)
  have key: "\<exists>u'. find (\<lambda>d. map_of md d = None) (enum S) = Some u' \<and>
              search eng enum q md = Inl (KeyError u')"
    if safe: "set (process_query eng enum q) \<inter> fst ` set (reviews_index eng) = {} \<or>
      S \<inter> set reviews_entry_keys = {}"
  proof -
    from absent obtain u' where u': "find (\<lambda>d. map_of md d = None) (enum S) = Some u'"
      by (cases "find (\<lambda>d. map_of md d = None) (enum S)") (auto simp add: find_None_iff)
    from safe assms(2) have
      "set (process_query eng enum q) \<inter> fst ` set (reviews_index eng) = {} \<or>
       set (enum S) \<inter> set reviews_entry_keys = {}"
      by simp
    from search_loop_key_error [OF this u']
    have "search_loop eng (process_query eng enum q) md (enum S) [] = Inl (KeyError u')" .
    with assms(1) u' show ?thesis
      by (simp add: search_def Let_def)
  qed
  from raises key show ?thesis by blast
qed

lemma search_key_error_example:
  "search
     \<lparr>title_index = [(''beanie'', [(''u1'', [1]), (''u2'', [0])])],
        description_index = [], brand_index = [], origin_index = [],
        reviews_index = [(''u1'', \<lparr>total_reviews = 0, mean_mark = 0, last_rating = 0\<rparr>)],
        stopwords = [''the''], synonyms = []\<rparr>
     (\<lambda>S. filter (\<lambda>x. x \<in> S) [''beanie'', ''u1'', ''u2''])
     ''The beanie''
     [(''u1'', \<lparr>title = ''Red beanie'', description = [], title_tokens = [''red'', ''beanie''],
         review_count = 0, doc_length = 0\<rparr>)] = Inl (KeyError ''u2'')"
proof -
  let ?eng = "\<lparr>title_index = [(''beanie'', [(''u1'', [1::nat]), (''u2'', [0])])],
        description_index = [], brand_index = [], origin_index = [],
        reviews_index = [(''u1'', \<lparr>total_reviews = 0, mean_mark = 0, last_rating = 0\<rparr>)],
        stopwords = [''the''], synonyms = []\<rparr>"
  let ?enum = "\<lambda>S. filter (\<lambda>x. x \<in> S) [''beanie'', ''u1'', ''u2'']"
  let ?md = "[(''u1'', \<lparr>title = ''Red beanie'', description = [],
         title_tokens = [''red'', ''beanie''], review_count = 0, doc_length = 0\<rparr>)]"
  have tok: "tokenize ''The beanie'' = [''the'', ''beanie'']"
    by code_simp
  have q: "process_query ?eng ?enum ''The beanie'' = [''beanie'']"
    by (simp add: process_query_def expand_with_synonyms_def normalize_def tok)
  have h1: "filter_documents ?eng (process_query ?eng ?enum ''The beanie'') = Inr {''u1'', ''u2''}"
    unfolding q
    by (simp add: filter_documents_def filter_any_token_def filter_all_tokens_def
        text_postings_def feature_postings_def)
  have h2: "set (?enum {''u1'', ''u2''}) = {''u1'', ''u2''}" by auto
  have h3: "''u2'' \<in> {''u1'', ''u2''}" by simp
  have h4: "map_of ?md ''u2'' = None" by simp
  have safe: "set (process_query ?eng ?enum ''The beanie'') \<inter> fst ` set (reviews_index ?eng) = {}"
    unfolding q by simp
  from search_raises_without_metadata [OF h1 h2 h3 h4] safe
  obtain u' where "find (\<lambda>d. map_of ?md d = None) (?enum {''u1'', ''u2''}) = Some u'"
    and s: "search ?eng ?enum ''The beanie'' ?md = Inl (KeyError u')"
    by blast
  then have "u' = ''u2''" by simp
  with s show ?thesis by simp
qed

text \<open>
  C10 at a candidate set of two URLs, of which \<open>zzz\<close> has no metadata. Iterated with
  \<open>zzz\<close> first, \<^verbatim>\<open>search\<close> raises the lookup error the claim names. Iterated with
  \<open>total_reviews\<close> first, \<^verbatim>\<open>compute_score\<close> raises \<^verbatim>\<open>TypeError\<close> for that candidate (the
  defect of C3: the query token \<open>u\<close> is a URL of the reviews index and the candidate's
  URL is the name of a key of its entries) before the loop reaches \<open>zzz\<close>.
\<close>

theorem search_type_error_first:
  "filter_documents
     \<lparr>title_index = [(''u'', [(''total_reviews'', [0]), (''zzz'', [0])])],
        description_index = [], brand_index = [], origin_index = [],
        reviews_index = [(''u'', \<lparr>total_reviews = 0, mean_mark = 0, last_rating = 0\<rparr>)],
        stopwords = [], synonyms = []\<rparr> [''u''] = Inr {''total_reviews'', ''zzz''} \<and>
   map_of [(''total_reviews'', \<lparr>title = ''T'', description = [], title_tokens = [''t''],
              review_count = 0, doc_length = 0\<rparr>)] ''zzz'' = None \<and>
   search
     \<lparr>title_index = [(''u'', [(''total_reviews'', [0]), (''zzz'', [0])])],
        description_index = [], brand_index = [], origin_index = [],
        reviews_index = [(''u'', \<lparr>total_reviews = 0, mean_mark = 0, last_rating = 0\<rparr>)],
        stopwords = [], synonyms = []\<rparr>
     (\<lambda>S. filter (\<lambda>x. x \<in> S) [''u'', ''total_reviews'', ''zzz''])
     ''u''
     [(''total_reviews'', \<lparr>title = ''T'', description = [], title_tokens = [''t''],
         review_count = 0, doc_length = 0\<rparr>)] = Inl TypeError \<and>
   search
     \<lparr>title_index = [(''u'', [(''total_reviews'', [0]), (''zzz'', [0])])],
        description_index = [], brand_index = [], origin_index = [],
        reviews_index = [(''u'', \<lparr>total_reviews = 0, mean_mark = 0, last_rating = 0\<rparr>)],
        stopwords = [], synonyms = []\<rparr>
     (\<lambda>S. filter (\<lambda>x. x \<in> S) [''u'', ''zzz'', ''total_reviews''])
     ''u''
     [(''total_reviews'', \<lparr>title = ''T'', description = [], title_tokens = [''t''],
         review_count = 0, doc_length = 0\<rparr>)] = Inl (KeyError ''zzz'')"
proof -
  have tok: "tokenize ''u'' = [''u'']"
    by code_simp
  show ?thesis
    by (simp add: search_def process_query_def expand_with_synonyms_def normalize_def tok
        filter_documents_def filter_any_token_def filter_all_tokens_def text_postings_def
        feature_postings_def compute_score_def reviews_entry_keys_def Let_def)
qed

end
